theory Spec2Isabelle
  imports Main "HOL-Library.Word"
begin

section \<open>Strings, arrays and objects of the server\<close>

text \<open>
  A string of the server is a sequence of UTF-16 code units: \<open>length\<close> counts code
  units and \<open>split('')\<close> cuts a string into its code units. A one-character string is a
  one-element list.
\<close>

type_synonym jschar = "16 word"
type_synonym jsstring = "jschar list"

text \<open>
  An array that is written by index (\<open>result[i] = v\<close>) grows when the index is beyond
  its end and leaves holes in between; \<open>None\<close> is a hole. Reading outside the array
  gives \<open>undefined\<close>, which is \<open>None\<close> as well.
\<close>

definition array_set :: "'a option list \<Rightarrow> nat \<Rightarrow> 'a \<Rightarrow> 'a option list" where
  "array_set xs i v =
     (if i < length xs then xs[i := Some v]
      else xs @ replicate (i - length xs) None @ [Some v])"

definition array_get :: "'a option list \<Rightarrow> nat \<Rightarrow> 'a option" where
  "array_get xs i = (if i < length xs then xs ! i else None)"

definition nth_opt :: "'a list \<Rightarrow> nat \<Rightarrow> 'a option" where
  "nth_opt xs i = (if i < length xs then Some (xs ! i) else None)"

text \<open>\<open>forEach\<close> and \<open>findIndex\<close> hand the callback the element and its index.\<close>

fun forEach_from :: "nat \<Rightarrow> ('a \<Rightarrow> nat \<Rightarrow> 's \<Rightarrow> 's) \<Rightarrow> 'a list \<Rightarrow> 's \<Rightarrow> 's" where
  "forEach_from k f [] s = s"
| "forEach_from k f (x # xs) s = forEach_from (Suc k) f xs (f x k s)"

definition forEach :: "'a list \<Rightarrow> ('a \<Rightarrow> nat \<Rightarrow> 's \<Rightarrow> 's) \<Rightarrow> 's \<Rightarrow> 's" where
  "forEach xs f s = forEach_from 0 f xs s"

fun findIndex_from :: "nat \<Rightarrow> ('a \<Rightarrow> nat \<Rightarrow> bool) \<Rightarrow> 'a list \<Rightarrow> nat option" where
  "findIndex_from k P [] = None"
| "findIndex_from k P (x # xs) = (if P x k then Some k else findIndex_from (Suc k) P xs)"

definition findIndex :: "'a list \<Rightarrow> ('a \<Rightarrow> nat \<Rightarrow> bool) \<Rightarrow> nat option" where
  "findIndex xs P = findIndex_from 0 P xs"

text \<open>
  An object with string keys is an association list in insertion order: writing an
  existing key replaces its value in place, writing a new key appends it. An object
  literal writes its properties from left to right, so of two equal keys the later value
  stays. The keys of the server's objects are one-character strings and socket ids: no
  key is an array index, which an object would list before its other keys, and no key is
  the name of a property that every object inherits, so that a lookup finds what was
  written and nothing else.
\<close>

fun obj_set :: "('k \<times> 'v) list \<Rightarrow> 'k \<Rightarrow> 'v \<Rightarrow> ('k \<times> 'v) list" where
  "obj_set [] k v = [(k, v)]"
| "obj_set ((k', v') # kvs) k v =
     (if k' = k then (k, v) # kvs else (k', v') # obj_set kvs k v)"

fun obj_get :: "('k \<times> 'v) list \<Rightarrow> 'k \<Rightarrow> 'v option" where
  "obj_get [] k = None"
| "obj_get ((k', v') # kvs) k = (if k' = k then Some v' else obj_get kvs k)"

fun obj_literal :: "('k \<times> 'v) list \<Rightarrow> ('k \<times> 'v) list \<Rightarrow> ('k \<times> 'v) list" where
  "obj_literal acc [] = acc"
| "obj_literal acc ((k, v) # kvs) = obj_literal (obj_set acc k v) kvs"

section \<open>The guess evaluator \<open>checkGuess\<close>\<close>

datatype mark = Correct | Present | Absent

text \<open>
  The table \<open>finalToRegular\<close> as the source file has it: three properties with the
  empty key and the empty value, then two one-character keys with one-character values.
\<close>

definition finalToRegular :: "(jsstring \<times> jsstring) list" where
  "finalToRegular = obj_literal []
     [([], []), ([], []), ([], []),
      ([0x795D], [0x9A7B]), ([0x6293], [0x722A])]"

text \<open>
  \<open>finalToRegular[char] || char\<close>: the looked-up value when there is one and it is not
  the empty string, the character itself otherwise; \<open>join('')\<close> concatenates.
\<close>

definition normalizeChar :: "jschar \<Rightarrow> jsstring" where
  "normalizeChar char =
     (case obj_get finalToRegular [char] of
        None \<Rightarrow> [char]
      | Some v \<Rightarrow> if v = [] then [char] else v)"

definition normalizeHebrew :: "jsstring \<Rightarrow> jsstring" where
  "normalizeHebrew text = concat (map normalizeChar text)"

text \<open>
  The state of the two loops is the pair of the arrays \<open>result\<close> and \<open>used\<close>. Both
  writes to \<open>used\<close> are in range: the first under \<open>letter === targetLetters[i]\<close>, the
  second at an index that \<open>findIndex\<close> returned.
\<close>

definition exactPass :: "jschar list \<Rightarrow> jschar \<Rightarrow> nat \<Rightarrow>
    mark option list \<times> bool list \<Rightarrow> mark option list \<times> bool list" where
  "exactPass targetLetters letter i s =
     (case s of (result, used) \<Rightarrow>
        if nth_opt targetLetters i = Some letter
        then (array_set result i Correct, used[i := True])
        else (result, used))"

definition presentPass :: "jschar list \<Rightarrow> jschar \<Rightarrow> nat \<Rightarrow>
    mark option list \<times> bool list \<Rightarrow> mark option list \<times> bool list" where
  "presentPass targetLetters letter i s =
     (case s of (result, used) \<Rightarrow>
        if array_get result i \<noteq> Some Correct
        then (case findIndex targetLetters (\<lambda>l idx. l = letter \<and> \<not> used ! idx) of
                Some targetIndex \<Rightarrow> (array_set result i Present, used[targetIndex := True])
              | None \<Rightarrow> (array_set result i Absent, used))
        else (result, used))"

definition checkGuess :: "jsstring \<Rightarrow> jsstring \<Rightarrow> mark option list" where
  "checkGuess guess target =
     (let normalizedGuess = normalizeHebrew guess;
          normalizedTarget = normalizeHebrew target;
          targetLetters = normalizedTarget;
          guessLetters = normalizedGuess;
          used = replicate (length targetLetters) False;
          s1 = forEach guessLetters (exactPass targetLetters) ([], used);
          s2 = forEach guessLetters (presentPass targetLetters) s1
      in fst s2)"

section \<open>The game room\<close>

text \<open>
  A player is identified by the \<open>id\<close> of its socket. The record field for the
  property \<open>id\<close> of a player is \<open>id_player\<close>. The \<open>result\<close> of a guess is the array
  that \<open>checkGuess\<close> returned.
\<close>

type_synonym PlayerId = jsstring

record GuessRecord =
  word :: jsstring
  result :: "mark option list"

record PlayerState =
  id_player :: PlayerId
  guesses :: "GuessRecord list"
  currentGuess :: jsstring
  won :: bool
  finished :: bool
  score :: nat

record GameRoom =
  roomId :: jsstring
  players :: "(PlayerId \<times> PlayerState) list"
  targetWord :: jsstring
  gameStarted :: bool

text \<open>The twenty entries of \<open>WORD_LIST\<close> as the source file has them, by code units;
  ten of them are the empty string.\<close>

definition WORD_LIST :: "jsstring list" where
  "WORD_LIST =
     [[0x7816], [0x8F6C], [0x62FD, 0x4E13], [0x6CE8, 0x4E13], [],
      [0x8F6C], [0x4F4F, 0x9A7B, 0x4E13], [], [], [],
      [], [], [0x8F6C], [], [],
      [0x4E13], [0x7816, 0x7816], [0x4E13], [0x6CE8, 0x6293], [0x9A7B, 0x4E13]]"

text \<open>
  \<open>getRandomWord\<close> reads the list at \<open>Math.floor(Math.random() * WORD_LIST.length)\<close>.
  The drawn index is an argument of the model; a draw is below the length of the list.
\<close>

definition getRandomWord :: "nat \<Rightarrow> jsstring" where
  "getRandomWord draw = WORD_LIST ! draw"

definition newPlayer :: "PlayerId \<Rightarrow> PlayerState" where
  "newPlayer p =
     \<lparr>id_player = p, guesses = [], currentGuess = [], won = False, finished = False,
      score = 0\<rparr>"

text \<open>The constructor; the two computed keys of the literal may be the same string.\<close>

definition GameRoom_new :: "jsstring \<Rightarrow> PlayerId \<Rightarrow> PlayerId \<Rightarrow> nat \<Rightarrow> GameRoom" where
  "GameRoom_new rid player1 player2 draw =
     \<lparr>roomId = rid,
      players = obj_literal [] [(player1, newPlayer player1), (player2, newPlayer player2)],
      targetWord = getRandomWord draw,
      gameStarted = False\<rparr>"

definition resetPlayer :: "PlayerState \<Rightarrow> PlayerState" where
  "resetPlayer player =
     player\<lparr>guesses := [], currentGuess := [], won := False, finished := False\<rparr>"

definition startNewRound :: "GameRoom \<Rightarrow> nat \<Rightarrow> GameRoom" where
  "startNewRound room draw =
     room\<lparr>targetWord := getRandomWord draw,
          players := map (map_prod (\<lambda>k. k) resetPlayer) (players room),
          gameStarted := True\<rparr>"

definition updatePlayerGuess :: "GameRoom \<Rightarrow> PlayerId \<Rightarrow> jsstring \<Rightarrow> GameRoom" where
  "updatePlayerGuess room playerId guess =
     (case obj_get (players room) playerId of
        None \<Rightarrow> room
      | Some player \<Rightarrow>
          room\<lparr>players := obj_set (players room) playerId (player\<lparr>currentGuess := guess\<rparr>)\<rparr>)"

text \<open>\<open>every\<close> does not call its predicate on a hole.\<close>

definition every :: "'a option list \<Rightarrow> ('a \<Rightarrow> bool) \<Rightarrow> bool" where
  "every xs P = list_all (\<lambda>x. case x of None \<Rightarrow> True | Some v \<Rightarrow> P v) xs"

text \<open>
  \<open>recordGuess\<close> is what \<open>submitPlayerGuess\<close> does to the player it found: push the
  guess, clear \<open>currentGuess\<close>, then set the flags.
\<close>

definition recordGuess :: "PlayerState \<Rightarrow> jsstring \<Rightarrow> mark option list \<Rightarrow> PlayerState" where
  "recordGuess player guess res =
     (let pushed = player\<lparr>guesses := guesses player @ [\<lparr>word = guess, result = res\<rparr>],
                          currentGuess := []\<rparr>
      in if every res (\<lambda>r. r = Correct)
         then pushed\<lparr>won := True, finished := True, score := score pushed + 1\<rparr>
         else if length (guesses pushed) \<ge> 6
         then pushed\<lparr>finished := True\<rparr>
         else pushed)"

definition submitPlayerGuess ::
    "GameRoom \<Rightarrow> PlayerId \<Rightarrow> jsstring \<Rightarrow> mark option list \<Rightarrow> GameRoom" where
  "submitPlayerGuess room playerId guess res =
     (case obj_get (players room) playerId of
        None \<Rightarrow> room
      | Some player \<Rightarrow>
          room\<lparr>players := obj_set (players room) playerId (recordGuess player guess res)\<rparr>)"

definition isGameOver :: "GameRoom \<Rightarrow> bool" where
  "isGameOver room = list_all finished (map snd (players room))"

definition getWinner :: "GameRoom \<Rightarrow> PlayerId option" where
  "getWinner room =
     (case find won (map snd (players room)) of
        Some winner \<Rightarrow> Some (id_player winner)
      | None \<Rightarrow> None)"

record GameState =
  gs_players :: "(PlayerId \<times> PlayerState) list"
  gs_gameStarted :: bool
  gs_isGameOver :: bool

definition getGameState :: "GameRoom \<Rightarrow> GameState" where
  "getGameState room =
     \<lparr>gs_players = players room, gs_gameStarted = gameStarted room,
      gs_isGameOver = isGameOver room\<rparr>"

section \<open>The server: waiting list, rooms and the handlers of a socket\<close>

text \<open>
  A socket is identified by its \<open>id\<close>, which the transport gives to one connection only;
  \<open>waitingPlayers\<close> holds sockets, \<open>socket_roomId\<close> is the property \<open>roomId\<close> that the
  handlers store on a socket (\<open>None\<close> while it is undefined). A room object is reached
  through the registry \<open>rooms\<close> under its \<open>roomId\<close>.
\<close>

record Server =
  waitingPlayers :: "PlayerId list"
  rooms :: "jsstring \<rightharpoonup> GameRoom"
  socket_roomId :: "PlayerId \<rightharpoonup> jsstring"

definition init :: Server where
  "init = \<lparr>waitingPlayers = [], rooms = Map.empty, socket_roomId = Map.empty\<rparr>"

text \<open>
  What a handler sends or schedules, in order: the messages with their audience, and the
  two delayed callbacks (the start of the first round, the \<open>gameOver\<close> message).
\<close>

datatype outbound =
    WaitingForOpponent PlayerId
  | MatchFound PlayerId jsstring PlayerId PlayerId
  | StartRoundLater jsstring
  | GameStart jsstring nat GameState
  | GameUpdate jsstring GameState
  | GameOverLater jsstring
  | OpponentDisconnected jsstring

text \<open>The room id is the template \<open>room_${socket.id}_${opponent.id}\<close>.\<close>

definition makeRoomId :: "PlayerId \<Rightarrow> PlayerId \<Rightarrow> jsstring" where
  "makeRoomId socketId opponentId =
     [0x72, 0x6F, 0x6F, 0x6D, 0x5F] @ socketId @ [0x5F] @ opponentId"

definition findMatch :: "Server \<Rightarrow> PlayerId \<Rightarrow> nat \<Rightarrow> Server \<times> outbound list" where
  "findMatch s socket draw =
     (case waitingPlayers s of
        opponent # waiting \<Rightarrow>
          (let rid = makeRoomId socket opponent;
               room = GameRoom_new rid socket opponent draw
           in (s\<lparr>waitingPlayers := waiting,
                  rooms := (rooms s)(rid \<mapsto> room),
                  socket_roomId := (socket_roomId s)(socket \<mapsto> rid, opponent \<mapsto> rid)\<rparr>,
               [MatchFound socket rid opponent socket,
                MatchFound opponent rid socket opponent,
                StartRoundLater rid]))
      | [] \<Rightarrow>
          (s\<lparr>waitingPlayers := waitingPlayers s @ [socket]\<rparr>, [WaitingForOpponent socket]))"

fun indexOf_from :: "nat \<Rightarrow> 'a list \<Rightarrow> 'a \<Rightarrow> nat option" where
  "indexOf_from k [] x = None"
| "indexOf_from k (y # ys) x = (if y = x then Some k else indexOf_from (Suc k) ys x)"

definition indexOf :: "'a list \<Rightarrow> 'a \<Rightarrow> nat option" where
  "indexOf xs x = indexOf_from 0 xs x"

definition splice1 :: "'a list \<Rightarrow> nat \<Rightarrow> 'a list" where
  "splice1 xs index = take index xs @ drop (Suc index) xs"

definition removeWaiting :: "Server \<Rightarrow> PlayerId \<Rightarrow> Server" where
  "removeWaiting s socket =
     (case indexOf (waitingPlayers s) socket of
        Some index \<Rightarrow> s\<lparr>waitingPlayers := splice1 (waitingPlayers s) index\<rparr>
      | None \<Rightarrow> s)"

definition cancelMatch :: "Server \<Rightarrow> PlayerId \<Rightarrow> Server \<times> outbound list" where
  "cancelMatch s socket = (removeWaiting s socket, [])"

text \<open>\<open>rooms.get(socket.roomId)\<close>, with the id it was found under.\<close>

definition roomOf :: "Server \<Rightarrow> PlayerId \<Rightarrow> (jsstring \<times> GameRoom) option" where
  "roomOf s socket =
     (case socket_roomId s socket of
        None \<Rightarrow> None
      | Some rid \<Rightarrow> (case rooms s rid of None \<Rightarrow> None | Some room \<Rightarrow> Some (rid, room)))"

definition updateGuess :: "Server \<Rightarrow> PlayerId \<Rightarrow> jsstring \<Rightarrow> Server \<times> outbound list" where
  "updateGuess s socket guess =
     (case roomOf s socket of
        Some (rid, room) \<Rightarrow>
          (let room' = updatePlayerGuess room socket guess
           in (s\<lparr>rooms := (rooms s)(rid \<mapsto> room')\<rparr>, [GameUpdate rid (getGameState room')]))
      | None \<Rightarrow> (s, []))"

text \<open>The guard \<open>room && guess && guess.length === room.targetWord.length\<close>: the empty
  string is falsy.\<close>

definition submitGuess :: "Server \<Rightarrow> PlayerId \<Rightarrow> jsstring \<Rightarrow> Server \<times> outbound list" where
  "submitGuess s socket guess =
     (case roomOf s socket of
        Some (rid, room) \<Rightarrow>
          if guess \<noteq> [] \<and> length guess = length (targetWord room)
          then (let res = checkGuess guess (targetWord room);
                    room' = submitPlayerGuess room socket guess res
                in (s\<lparr>rooms := (rooms s)(rid \<mapsto> room')\<rparr>,
                    GameUpdate rid (getGameState room') #
                    (if isGameOver room' then [GameOverLater rid] else [])))
          else (s, [])
      | None \<Rightarrow> (s, []))"

definition newRound :: "Server \<Rightarrow> PlayerId \<Rightarrow> nat \<Rightarrow> Server \<times> outbound list" where
  "newRound s socket draw =
     (case roomOf s socket of
        Some (rid, room) \<Rightarrow>
          (let room' = startNewRound room draw
           in (s\<lparr>rooms := (rooms s)(rid \<mapsto> room')\<rparr>,
               [GameStart rid (length (targetWord room')) (getGameState room')]))
      | None \<Rightarrow> (s, []))"

definition disconnect :: "Server \<Rightarrow> PlayerId \<Rightarrow> Server \<times> outbound list" where
  "disconnect s socket =
     (let s' = removeWaiting s socket
      in case socket_roomId s' socket of
           Some rid \<Rightarrow> (s'\<lparr>rooms := (rooms s')(rid := None)\<rparr>, [OpponentDisconnected rid])
         | None \<Rightarrow> (s', []))"

text \<open>
  The callback that \<open>findMatch\<close> schedules starts the first round of the room it created.
  It is a step of its own here, on the room that the registry holds under that id; when
  the room has been deleted in between, the registry does not change.
\<close>

definition startRoundLater :: "Server \<Rightarrow> jsstring \<Rightarrow> nat \<Rightarrow> Server \<times> outbound list" where
  "startRoundLater s rid draw =
     (case rooms s rid of
        Some room \<Rightarrow>
          (let room' = startNewRound room draw
           in (s\<lparr>rooms := (rooms s)(rid \<mapsto> room')\<rparr>,
               [GameStart rid (length (targetWord room')) (getGameState room')]))
      | None \<Rightarrow> (s, []))"

datatype event =
    FindMatch PlayerId nat
  | CancelMatch PlayerId
  | UpdateGuess PlayerId jsstring
  | SubmitGuess PlayerId jsstring
  | NewRound PlayerId nat
  | Disconnect PlayerId
  | StartRoundTimer jsstring nat

fun handle :: "Server \<Rightarrow> event \<Rightarrow> Server \<times> outbound list" where
  "handle s (FindMatch socket draw) = findMatch s socket draw"
| "handle s (CancelMatch socket) = cancelMatch s socket"
| "handle s (UpdateGuess socket guess) = updateGuess s socket guess"
| "handle s (SubmitGuess socket guess) = submitGuess s socket guess"
| "handle s (NewRound socket draw) = newRound s socket draw"
| "handle s (Disconnect socket) = disconnect s socket"
| "handle s (StartRoundTimer rid draw) = startRoundLater s rid draw"

fun draw_ok :: "event \<Rightarrow> bool" where
  "draw_ok (FindMatch socket draw) = (draw < length WORD_LIST)"
| "draw_ok (NewRound socket draw) = (draw < length WORD_LIST)"
| "draw_ok (StartRoundTimer rid draw) = (draw < length WORD_LIST)"
| "draw_ok _ = True"

text \<open>Events are handled one at a time, each to completion, from the empty server.\<close>

inductive reachable :: "Server \<Rightarrow> bool" where
  reachable_init: "reachable init"
| reachable_step: "reachable s \<Longrightarrow> draw_ok e \<Longrightarrow> reachable (fst (handle s e))"

fun run :: "Server \<Rightarrow> event list \<Rightarrow> Server" where
  "run s [] = s"
| "run s (e # es) = run (fst (handle s e)) es"

section \<open>Invariants and example runs\<close>

text \<open>
  What holds of every player entry of a room: the \<open>id\<close> of the entry is its key, a
  player who is not finished has fewer than six guesses, and a player who has won is
  finished.
\<close>

definition player_inv :: "PlayerId \<times> PlayerState \<Rightarrow> bool" where
  "player_inv kp =
     (id_player (snd kp) = fst kp \<and>
      (finished (snd kp) \<or> length (guesses (snd kp)) < 6) \<and>
      (finished (snd kp) \<or> \<not> won (snd kp)))"

text \<open>
  What holds of every room of the registry: it is stored under its own id, its keys are
  the ids of the pairing it was created from, and every entry satisfies \<open>player_inv\<close>.
\<close>

definition room_inv :: "jsstring \<Rightarrow> GameRoom \<Rightarrow> bool" where
  "room_inv rid room =
     (roomId room = rid \<and>
      (\<exists>p1 p2. rid = makeRoomId p1 p2 \<and>
         map fst (players room) = (if p1 = p2 then [p1] else [p1, p2])) \<and>
      list_all player_inv (players room))"

definition rooms_inv :: "Server \<Rightarrow> bool" where
  "rooms_inv s = (\<forall>rid room. rooms s rid = Some room \<longrightarrow> room_inv rid room)"

definition alice :: PlayerId where
  "alice = [0x41]"

definition bob :: PlayerId where
  "bob = [0x42]"

definition carol :: PlayerId where
  "carol = [0x43]"

text \<open>Alice waits; Alice asks for a match a second time.\<close>

definition alice_waiting :: Server where
  "alice_waiting = run init [FindMatch alice 0]"

definition alice_twice :: Server where
  "alice_twice = run init [FindMatch alice 0, FindMatch alice 0]"

text \<open>
  Alice waits and Bob is matched with her: the room \<open>room_B_A\<close> with the first word of
  the list as target, before its first round has started.
\<close>

definition room_B_A :: jsstring where
  "room_B_A = makeRoomId bob alice"

definition matched :: Server where
  "matched = run init [FindMatch alice 0, FindMatch bob 0]"

text \<open>The round starts (the word drawn is the first of the list) and Bob guesses it.\<close>

definition bob_won :: Server where
  "bob_won = run matched [StartRoundTimer room_B_A 0, SubmitGuess bob [0x7816]]"

definition bob_won_room :: GameRoom where
  "bob_won_room =
     \<lparr>roomId = room_B_A,
      players =
        [(bob, \<lparr>id_player = bob, guesses = [\<lparr>word = [0x7816], result = [Some Correct]\<rparr>],
                 currentGuess = [], won = True, finished = True, score = 1\<rparr>),
         (alice, newPlayer alice)],
      targetWord = [0x7816],
      gameStarted = True\<rparr>"

text \<open>The round starts and Alice submits seven wrong guesses of the right length.\<close>

definition seven_guesses :: Server where
  "seven_guesses = run matched
     [StartRoundTimer room_B_A 0,
      SubmitGuess alice [0x41], SubmitGuess alice [0x41], SubmitGuess alice [0x41],
      SubmitGuess alice [0x41], SubmitGuess alice [0x41], SubmitGuess alice [0x41],
      SubmitGuess alice [0x41]]"

text \<open>
  The round starts and Alice submits five wrong guesses: the run, Alice's entry after it
  and the room after it.
\<close>

definition five_guesses :: Server where
  "five_guesses = run matched
     [StartRoundTimer room_B_A 0,
      SubmitGuess alice [0x41], SubmitGuess alice [0x41], SubmitGuess alice [0x41],
      SubmitGuess alice [0x41], SubmitGuess alice [0x41]]"

definition wrong_guess :: GuessRecord where
  "wrong_guess = \<lparr>word = [0x41], result = [Some Absent]\<rparr>"

definition alice_five :: PlayerState where
  "alice_five =
     \<lparr>id_player = alice,
      guesses = [wrong_guess, wrong_guess, wrong_guess, wrong_guess, wrong_guess],
      currentGuess = [], won = False, finished = False, score = 0\<rparr>"

definition five_guesses_room :: GameRoom where
  "five_guesses_room =
     \<lparr>roomId = room_B_A,
      players = [(bob, newPlayer bob), (alice, alice_five)],
      targetWord = [0x7816],
      gameStarted = True\<rparr>"

text \<open>Alice and Bob are in a room and Carol waits.\<close>

definition carol_waiting :: Server where
  "carol_waiting = run matched [FindMatch carol 0]"

text \<open>The state of a player of a room of the registry.\<close>

definition playerOf :: "Server \<Rightarrow> jsstring \<Rightarrow> PlayerId \<Rightarrow> PlayerState option" where
  "playerOf s rid p =
     (case rooms s rid of None \<Rightarrow> None | Some room \<Rightarrow> obj_get (players room) p)"

section \<open>Properties of the guess evaluator\<close>

lemma normalizeChar_eq:
  "normalizeChar c = [if c = 0x795D then 0x9A7B else if c = 0x6293 then 0x722A else c]"
  by (simp add: normalizeChar_def finalToRegular_def)

lemma normalizeHebrew_Cons: "normalizeHebrew (c # cs) = normalizeChar c @ normalizeHebrew cs"
  by (simp add: normalizeHebrew_def)

lemma length_normalizeHebrew: "length (normalizeHebrew cs) = length cs"
  by (induction cs) (simp_all add: normalizeHebrew_def normalizeChar_eq)

lemma normalizeHebrew_update:
  assumes "normalizeChar fc = normalizeChar (cs ! i)"
  shows "normalizeHebrew (cs[i := fc]) = normalizeHebrew cs"
  using assms
proof (induction cs arbitrary: i)
  case Nil
  then show ?case by simp
next
  case (Cons c cs)
  then show ?case by (cases i) (simp_all add: normalizeHebrew_Cons)
qed

lemma finalToRegular_same_letter:
  assumes "([fc], [rc]) \<in> set finalToRegular"
  shows "normalizeChar fc = normalizeChar rc"
  using assms by (auto simp add: finalToRegular_def normalizeChar_eq)

lemma exactPass_hit:
  "nth_opt targetLetters i = Some letter \<Longrightarrow>
   exactPass targetLetters letter i (res, used) =
     (array_set res i Correct, used[i := True])"
  by (simp add: exactPass_def)

lemma presentPass_done:
  "array_get res i = Some Correct \<Longrightarrow>
   presentPass targetLetters letter i (res, used) = (res, used)"
  by (simp add: presentPass_def)

text \<open>
  When the guess is the target, the exact pass marks every position: after the letters
  \<open>pre\<close> the array \<open>result\<close> holds \<open>length pre\<close> times \<open>correct\<close>.
\<close>

lemma fst_exactPass_self:
  "fst (forEach_from (length pre) (exactPass (pre @ xs)) xs
          (replicate (length pre) (Some Correct), used)) =
   replicate (length pre + length xs) (Some Correct)"
proof (induction xs arbitrary: pre used)
  case Nil
  then show ?case by simp
next
  case (Cons x xs)
  have hit: "exactPass (pre @ x # xs) x (length pre)
               (replicate (length pre) (Some Correct), used) =
             (replicate (length (pre @ [x])) (Some Correct), used[length pre := True])"
    by (simp add: exactPass_hit nth_opt_def array_set_def replicate_append_same)
  have "fst (forEach_from (length (pre @ [x])) (exactPass ((pre @ [x]) @ xs)) xs
          (replicate (length (pre @ [x])) (Some Correct), used[length pre := True])) =
        replicate (length (pre @ [x]) + length xs) (Some Correct)"
    by (rule Cons.IH)
  then show ?case
    by (simp add: hit)
qed

text \<open>The presence pass leaves the positions alone that are marked \<open>correct\<close>.\<close>

lemma presentPass_skip:
  assumes "\<forall>i. k \<le> i \<and> i < k + length xs \<longrightarrow> array_get res i = Some Correct"
  shows "forEach_from k (presentPass targetLetters) xs (res, used) = (res, used)"
  using assms
proof (induction xs arbitrary: k)
  case Nil
  then show ?case by simp
next
  case (Cons x xs)
  from Cons.prems have "array_get res k = Some Correct" by simp
  moreover have "forEach_from (Suc k) (presentPass targetLetters) xs (res, used) = (res, used)"
    using Cons.prems by (intro Cons.IH) simp
  ultimately show ?case by (simp add: presentPass_done)
qed

lemma checkGuess_self: "checkGuess target target = replicate (length target) (Some Correct)"
proof -
  let ?n = "normalizeHebrew target"
  let ?s1 = "forEach_from 0 (exactPass ?n) ?n ([], replicate (length ?n) False)"
  have r1: "fst ?s1 = replicate (length ?n) (Some Correct)"
    using fst_exactPass_self [of "[]" ?n] by simp
  have "forEach_from 0 (presentPass ?n) ?n (fst ?s1, snd ?s1) = (fst ?s1, snd ?s1)"
    by (rule presentPass_skip) (simp add: r1 array_get_def)
  then have s2: "forEach_from 0 (presentPass ?n) ?n ?s1 = ?s1"
    by simp
  show ?thesis
    unfolding checkGuess_def Let_def forEach_def s2 r1
    by (simp add: length_normalizeHebrew)
qed

lemma checkLetters_duplicate:
  assumes "distinct [a, b, c, x]"
  shows "fst (forEach [b, b, x, a] (presentPass [a, b, c, b])
           (forEach [b, b, x, a] (exactPass [a, b, c, b])
              ([], [False, False, False, False]))) =
         [Some Present, Some Correct, Some Absent, Some Present]"
proof -
  from assms have d: "a \<noteq> b" "b \<noteq> a" "a \<noteq> c" "c \<noteq> a" "a \<noteq> x" "x \<noteq> a"
    "b \<noteq> c" "c \<noteq> b" "b \<noteq> x" "x \<noteq> b" "c \<noteq> x" "x \<noteq> c"
    by auto
  show ?thesis
    by (simp add: d forEach_def exactPass_def presentPass_def findIndex_def nth_opt_def
        array_set_def array_get_def)
qed

text \<open>
  Claim C3. For the target \<open>ABCB\<close> and the guess \<open>BBXA\<close>, and for every pair of a
  target and a guess with the same pattern of equal letters (four letters \<open>a\<close>, \<open>b\<close>,
  \<open>c\<close>, \<open>x\<close> whose canonical forms are pairwise different), \<open>checkGuess\<close> returns
  exactly present, correct, absent, present: the exact pass takes the target's index 1,
  and the presence pass gives the target's other \<open>b\<close> to the guess's position 0.
\<close>

theorem checkGuess_duplicate_letter:
  assumes "distinct (normalizeHebrew [a, b, c, x])"
  shows "checkGuess [b, b, x, a] [a, b, c, b] =
           [Some Present, Some Correct, Some Absent, Some Present]"
proof -
  obtain a' b' c' x' where n: "normalizeChar a = [a']" "normalizeChar b = [b']"
    "normalizeChar c = [c']" "normalizeChar x = [x']"
    by (simp add: normalizeChar_eq)
  from assms have "distinct [a', b', c', x']"
    by (simp add: normalizeHebrew_def n)
  from checkLetters_duplicate [OF this] show ?thesis
    by (simp add: checkGuess_def normalizeHebrew_def n Let_def)
qed

theorem checkGuess_duplicate_letter_witness:
  "distinct (normalizeHebrew [0x41, 0x42, 0x43, 0x58]) \<and>
   checkGuess [0x42, 0x42, 0x58, 0x41] [0x41, 0x42, 0x43, 0x42] =
     [Some Present, Some Correct, Some Absent, Some Present]"
  using checkGuess_duplicate_letter [of "0x41" "0x42" "0x43" "0x58"]
  by (simp add: normalizeHebrew_def normalizeChar_eq)

text \<open>
  Claim C4. For every letter that has a final form in the table \<open>finalToRegular\<close>
  (an entry with the final glyph \<open>fc\<close> as key and the letter \<open>rc\<close> as value), writing
  the final glyph at a position of the word, or of the target, where that letter stands
  leaves the marks that \<open>checkGuess\<close> returns unchanged, whatever the lengths.
\<close>

theorem checkGuess_final_form_invariant:
  assumes "([fc], [rc]) \<in> set finalToRegular"
  shows "(i < length guess \<and> guess ! i = rc \<longrightarrow>
           checkGuess (guess[i := fc]) target = checkGuess guess target) \<and>
         (j < length target \<and> target ! j = rc \<longrightarrow>
           checkGuess guess (target[j := fc]) = checkGuess guess target)"
  using finalToRegular_same_letter [OF assms]
  by (simp add: checkGuess_def normalizeHebrew_update)

theorem checkGuess_final_form_invariant_witness:
  "([0x6293], [0x722A]) \<in> set finalToRegular \<and>
   checkGuess [0x722A, 0x6293] [0x6CE8, 0x722A] = checkGuess [0x722A, 0x722A] [0x6CE8, 0x722A] \<and>
   checkGuess [0x722A, 0x722A] [0x6CE8, 0x6293] = checkGuess [0x722A, 0x722A] [0x6CE8, 0x722A]"
  using checkGuess_final_form_invariant
    [of "0x6293" "0x722A" 1 "[0x722A, 0x722A]" "[0x6CE8, 0x722A]" 1]
  by (simp add: finalToRegular_def)

text \<open>
  Claim C8. For every word of \<open>WORD_LIST\<close>, evaluating the word against itself gives
  an array of the length of the word in which every mark is correct.
\<close>

theorem checkGuess_vocabulary_self:
  "\<forall>target \<in> set WORD_LIST.
     checkGuess target target = replicate (length target) (Some Correct)"
  by (simp add: checkGuess_self)

theorem checkGuess_vocabulary_self_witness:
  "[0x6CE8, 0x6293] \<in> set WORD_LIST \<and>
   checkGuess [0x6CE8, 0x6293] [0x6CE8, 0x6293] = [Some Correct, Some Correct]"
  using checkGuess_vocabulary_self [THEN bspec, of "[0x6CE8, 0x6293]"]
  by (simp add: WORD_LIST_def)

section \<open>Properties of objects, the waiting list and the rooms\<close>

lemma obj_get_obj_set:
  "obj_get (obj_set kvs k v) k' = (if k' = k then Some v else obj_get kvs k')"
  by (induction kvs) auto

lemma map_fst_obj_set:
  "obj_get kvs k = Some v0 \<Longrightarrow> map fst (obj_set kvs k v) = map fst kvs"
  by (induction kvs) (auto split: if_splits)

lemma set_obj_set: "set (obj_set kvs k v) \<subseteq> insert (k, v) (set kvs)"
  by (induction kvs) (auto split: if_splits)

lemma obj_set_twice: "obj_set (obj_set kvs k v) k w = obj_set kvs k w"
  by (induction kvs) auto

lemma obj_get_Some_mem: "obj_get kvs k = Some v \<Longrightarrow> (k, v) \<in> set kvs"
  by (induction kvs) (auto split: if_splits)

lemma obj_get_distinct:
  "distinct (map fst kvs) \<Longrightarrow> (k, v) \<in> set kvs \<Longrightarrow> obj_get kvs k = Some v"
  by (induction kvs) (auto simp: rev_image_eqI)

lemma reachable_run: "reachable s \<Longrightarrow> list_all draw_ok es \<Longrightarrow> reachable (run s es)"
proof (induction es arbitrary: s)
  case Nil
  then show ?case by simp
next
  case (Cons e es)
  then show ?case by (simp add: reachable_step)
qed

subsection \<open>The waiting list\<close>

lemma length_splice1: "index < length xs \<Longrightarrow> length (splice1 xs index) = length xs - 1"
  by (simp add: splice1_def)

lemma indexOf_from_bound: "indexOf_from k xs x = Some i \<Longrightarrow> k \<le> i \<and> i < k + length xs"
  by (induction xs arbitrary: k) (fastforce split: if_splits)+

lemma length_removeWaiting: "length (waitingPlayers (removeWaiting s p)) \<le> length (waitingPlayers s)"
  by (auto simp: removeWaiting_def indexOf_def length_splice1 split: option.splits dest!: indexOf_from_bound)

lemma waiting_handle:
  assumes "length (waitingPlayers s) \<le> 1"
  shows "length (waitingPlayers (fst (handle s e))) \<le> 1"
  using assms
proof (cases e)
  case (FindMatch p k)
  with assms show ?thesis
    by (cases "waitingPlayers s") (simp_all add: findMatch_def Let_def)
next
  case (CancelMatch p)
  with assms show ?thesis
    using length_removeWaiting [of s p] by (simp add: cancelMatch_def)
next
  case (Disconnect p)
  with assms show ?thesis
    using length_removeWaiting [of s p]
    by (simp add: disconnect_def Let_def split: option.splits)
qed (simp_all add: updateGuess_def submitGuess_def newRound_def startRoundLater_def Let_def
    split: option.splits prod.splits)

lemma reachable_waiting: "reachable s \<Longrightarrow> length (waitingPlayers s) \<le> 1"
proof (induction rule: reachable.induct)
  case reachable_init
  then show ?case by (simp add: init_def)
next
  case (reachable_step s e)
  then show ?case by (intro waiting_handle)
qed

text \<open>
  Claim C10. From the empty server, after any sequence of events (\<open>findMatch\<close>,
  \<open>cancelMatch\<close>, \<open>disconnect\<close> and all the others), at most one player waits, so that
  the waiting list has no duplicates: \<open>findMatch\<close> appends the socket only to the empty
  list and otherwise takes the one waiting entry away.
\<close>

theorem waitingPlayers_at_most_one:
  assumes "reachable s"
  shows "length (waitingPlayers s) \<le> 1 \<and> distinct (waitingPlayers s) \<and>
         waitingPlayers (fst (findMatch s socket draw)) =
           (if waitingPlayers s = [] then [socket] else [])"
proof -
  from assms have le: "length (waitingPlayers s) \<le> 1"
    by (rule reachable_waiting)
  then have "waitingPlayers s = [] \<or> (\<exists>p. waitingPlayers s = [p])"
    by (cases "waitingPlayers s") auto
  then show ?thesis
    by (auto simp: findMatch_def Let_def)
qed

theorem waitingPlayers_at_most_one_witness:
  "reachable alice_waiting \<and> waitingPlayers alice_waiting = [alice] \<and>
   length (waitingPlayers alice_waiting) \<le> 1 \<and>
   waitingPlayers (fst (findMatch alice_waiting bob 0)) = []"
proof -
  have r: "reachable alice_waiting"
    unfolding alice_waiting_def
    by (rule reachable_run [OF reachable_init]) (simp add: WORD_LIST_def)
  have w: "waitingPlayers alice_waiting = [alice]"
    by (simp add: alice_waiting_def init_def findMatch_def)
  show ?thesis
    using r w waitingPlayers_at_most_one [OF r, of bob 0] by simp
qed

subsection \<open>The live guess\<close>

lemma updatePlayerGuess_twice:
  "updatePlayerGuess (updatePlayerGuess room p guess) p guess = updatePlayerGuess room p guess"
  by (cases "obj_get (players room) p")
     (simp_all add: updatePlayerGuess_def obj_get_obj_set obj_set_twice)

lemma updatePlayerGuess_repeated:
  "((\<lambda>room. updatePlayerGuess room p guess) ^^ Suc n) room = updatePlayerGuess room p guess"
  by (induction n) (simp_all add: updatePlayerGuess_twice)

text \<open>
  Claim C9. For every room, every player \<open>p\<close> of the room and every text,
  \<open>updatePlayerGuess\<close> writes the text to the \<open>currentGuess\<close> of \<open>p\<close> and nothing else:
  the other fields of \<open>p\<close> (\<open>guesses\<close>, \<open>won\<close>, \<open>finished\<close>, \<open>score\<close>, \<open>id\<close>), the entry
  of every other player, the keys, \<open>targetWord\<close>, \<open>gameStarted\<close> and \<open>roomId\<close> stay as they
  were; the same call made any number of times gives the state of the first call; and the
  handler \<open>updateGuess\<close> changes nothing of the server but this room.
\<close>

theorem updatePlayerGuess_frame:
  assumes "obj_get (players room) p = Some player"
  shows "obj_get (players (updatePlayerGuess room p guess)) p =
           Some (player\<lparr>currentGuess := guess\<rparr>) \<and>
         (\<forall>q. q \<noteq> p \<longrightarrow>
            obj_get (players (updatePlayerGuess room p guess)) q = obj_get (players room) q) \<and>
         map fst (players (updatePlayerGuess room p guess)) = map fst (players room) \<and>
         targetWord (updatePlayerGuess room p guess) = targetWord room \<and>
         gameStarted (updatePlayerGuess room p guess) = gameStarted room \<and>
         roomId (updatePlayerGuess room p guess) = roomId room \<and>
         (\<forall>n. ((\<lambda>room. updatePlayerGuess room p guess) ^^ Suc n) room =
            updatePlayerGuess room p guess) \<and>
         (\<forall>s rid. roomOf s p = Some (rid, room) \<longrightarrow>
            fst (updateGuess s p guess) =
              s\<lparr>rooms := (rooms s)(rid \<mapsto> updatePlayerGuess room p guess)\<rparr>)"
proof -
  let ?room' = "updatePlayerGuess room p guess"
  have eq: "?room' = room\<lparr>players := obj_set (players room) p (player\<lparr>currentGuess := guess\<rparr>)\<rparr>"
    using assms by (simp add: updatePlayerGuess_def)
  have own: "obj_get (players ?room') p = Some (player\<lparr>currentGuess := guess\<rparr>)"
    by (simp add: eq obj_get_obj_set)
  have other: "\<forall>q. q \<noteq> p \<longrightarrow> obj_get (players ?room') q = obj_get (players room) q"
    by (simp add: eq obj_get_obj_set)
  have keys: "map fst (players ?room') = map fst (players room)"
    using assms by (simp add: eq map_fst_obj_set)
  have fields: "targetWord ?room' = targetWord room" "gameStarted ?room' = gameStarted room"
    "roomId ?room' = roomId room"
    by (simp_all add: eq)
  have again: "\<forall>n. ((\<lambda>room. updatePlayerGuess room p guess) ^^ Suc n) room = ?room'"
    by (intro allI updatePlayerGuess_repeated)
  have handler: "\<forall>s rid. roomOf s p = Some (rid, room) \<longrightarrow>
      fst (updateGuess s p guess) = s\<lparr>rooms := (rooms s)(rid \<mapsto> ?room')\<rparr>"
    by (simp add: updateGuess_def Let_def)
  from own other keys fields again handler show ?thesis
    by (intro conjI)
qed

theorem updatePlayerGuess_frame_witness:
  "obj_get (players (GameRoom_new room_B_A bob alice 0)) alice = Some (newPlayer alice) \<and>
   obj_get (players (updatePlayerGuess (GameRoom_new room_B_A bob alice 0) alice [0x7816])) alice =
     Some ((newPlayer alice)\<lparr>currentGuess := [0x7816]\<rparr>) \<and>
   obj_get (players (updatePlayerGuess (GameRoom_new room_B_A bob alice 0) alice [0x7816])) bob =
     Some (newPlayer bob) \<and>
   updatePlayerGuess (updatePlayerGuess (GameRoom_new room_B_A bob alice 0) alice [0x7816])
     alice [0x7816] =
   updatePlayerGuess (GameRoom_new room_B_A bob alice 0) alice [0x7816]"
proof -
  have h: "obj_get (players (GameRoom_new room_B_A bob alice 0)) alice = Some (newPlayer alice)"
    by (simp add: GameRoom_new_def alice_def bob_def)
  have g: "obj_get (players (GameRoom_new room_B_A bob alice 0)) bob = Some (newPlayer bob)"
    by (simp add: GameRoom_new_def alice_def bob_def)
  have ne: "bob \<noteq> alice"
    by (simp add: alice_def bob_def)
  from updatePlayerGuess_frame [OF h, of "[0x7816]"]
  have own: "obj_get (players (updatePlayerGuess (GameRoom_new room_B_A bob alice 0) alice [0x7816])) alice =
      Some ((newPlayer alice)\<lparr>currentGuess := [0x7816]\<rparr>)"
    and other: "\<forall>q. q \<noteq> alice \<longrightarrow>
      obj_get (players (updatePlayerGuess (GameRoom_new room_B_A bob alice 0) alice [0x7816])) q =
      obj_get (players (GameRoom_new room_B_A bob alice 0)) q"
    and again: "\<forall>n. ((\<lambda>room. updatePlayerGuess room alice [0x7816]) ^^ Suc n)
        (GameRoom_new room_B_A bob alice 0) =
      updatePlayerGuess (GameRoom_new room_B_A bob alice 0) alice [0x7816]"
    by blast+
  from again [THEN spec, of 1]
  have twice: "updatePlayerGuess (updatePlayerGuess (GameRoom_new room_B_A bob alice 0) alice [0x7816])
     alice [0x7816] = updatePlayerGuess (GameRoom_new room_B_A bob alice 0) alice [0x7816]"
    by simp
  from h own other [THEN spec, of bob] ne g twice show ?thesis
    by simp
qed

subsection \<open>Every reachable room satisfies the room invariant\<close>

lemma player_inv_newPlayer: "player_inv (p, newPlayer p)"
  by (simp add: player_inv_def newPlayer_def)

lemma player_inv_resetPlayer: "player_inv (k, player) \<Longrightarrow> player_inv (k, resetPlayer player)"
  by (simp add: player_inv_def resetPlayer_def)

lemma player_inv_currentGuess:
  "player_inv (k, player) \<Longrightarrow> player_inv (k, player\<lparr>currentGuess := guess\<rparr>)"
  by (simp add: player_inv_def)

lemma player_inv_recordGuess:
  "player_inv (k, player) \<Longrightarrow> player_inv (k, recordGuess player guess res)"
  by (auto simp add: player_inv_def recordGuess_def Let_def)

lemma list_all_obj_set:
  "list_all P kvs \<Longrightarrow> P (k, v) \<Longrightarrow> list_all P (obj_set kvs k v)"
  by (induction kvs) auto

lemma players_GameRoom_new:
  "players (GameRoom_new rid p1 p2 draw) =
     (if p1 = p2 then [(p1, newPlayer p1)] else [(p1, newPlayer p1), (p2, newPlayer p2)])"
  by (simp add: GameRoom_new_def)

lemma room_inv_GameRoom_new:
  "room_inv (makeRoomId p1 p2) (GameRoom_new (makeRoomId p1 p2) p1 p2 draw)"
proof -
  have "\<exists>q1 q2. makeRoomId p1 p2 = makeRoomId q1 q2 \<and>
      map fst (players (GameRoom_new (makeRoomId p1 p2) p1 p2 draw)) =
        (if q1 = q2 then [q1] else [q1, q2])"
    by (intro exI [of _ p1] exI [of _ p2]) (simp add: players_GameRoom_new)
  moreover have "roomId (GameRoom_new (makeRoomId p1 p2) p1 p2 draw) = makeRoomId p1 p2"
    by (simp add: GameRoom_new_def)
  moreover have "list_all player_inv (players (GameRoom_new (makeRoomId p1 p2) p1 p2 draw))"
    by (simp add: players_GameRoom_new player_inv_newPlayer)
  ultimately show ?thesis
    by (simp add: room_inv_def)
qed

lemma room_inv_startNewRound:
  assumes "room_inv rid room"
  shows "room_inv rid (startNewRound room draw)"
proof -
  have "list_all player_inv (map (map_prod (\<lambda>k. k) resetPlayer) kvs)" if "list_all player_inv kvs" for kvs
    using that by (induction kvs) (auto simp: player_inv_resetPlayer)
  with assms show ?thesis
    by (simp add: room_inv_def startNewRound_def comp_def)
qed

lemma room_inv_updatePlayerGuess:
  assumes "room_inv rid room"
  shows "room_inv rid (updatePlayerGuess room p guess)"
proof (cases "obj_get (players room) p")
  case None
  with assms show ?thesis by (simp add: updatePlayerGuess_def)
next
  case (Some player)
  from assms have "list_all player_inv (players room)"
    by (simp add: room_inv_def)
  with Some have "player_inv (p, player)"
    by (auto simp: list_all_iff dest: obj_get_Some_mem)
  then have "player_inv (p, player\<lparr>currentGuess := guess\<rparr>)"
    by (rule player_inv_currentGuess)
  with assms Some show ?thesis
    by (simp add: room_inv_def updatePlayerGuess_def map_fst_obj_set list_all_obj_set)
qed

lemma room_inv_submitPlayerGuess:
  assumes "room_inv rid room"
  shows "room_inv rid (submitPlayerGuess room p guess res)"
proof (cases "obj_get (players room) p")
  case None
  with assms show ?thesis by (simp add: submitPlayerGuess_def)
next
  case (Some player)
  from assms have "list_all player_inv (players room)"
    by (simp add: room_inv_def)
  with Some have "player_inv (p, player)"
    by (auto simp: list_all_iff dest: obj_get_Some_mem)
  then have "player_inv (p, recordGuess player guess res)"
    by (rule player_inv_recordGuess)
  with assms Some show ?thesis
    by (simp add: room_inv_def submitPlayerGuess_def map_fst_obj_set list_all_obj_set)
qed

lemma rooms_inv_update:
  "rooms_inv s \<Longrightarrow> room_inv rid room \<Longrightarrow> rooms_inv (s\<lparr>rooms := (rooms s)(rid \<mapsto> room)\<rparr>)"
  by (simp add: rooms_inv_def)

lemma roomOf_Some: "roomOf s p = Some (rid, room) \<Longrightarrow> rooms s rid = Some room"
  by (auto simp: roomOf_def split: option.splits)

lemma rooms_removeWaiting: "rooms (removeWaiting s p) = rooms s"
  by (simp add: removeWaiting_def split: option.splits)

lemma rooms_inv_handle:
  assumes "rooms_inv s"
  shows "rooms_inv (fst (handle s e))"
proof (cases e)
  case (FindMatch p draw)
  show ?thesis
  proof (cases "waitingPlayers s")
    case Nil
    with assms FindMatch show ?thesis by (simp add: findMatch_def rooms_inv_def)
  next
    case (Cons opponent waiting)
    with assms FindMatch show ?thesis
      by (simp add: findMatch_def rooms_inv_def Let_def room_inv_GameRoom_new)
  qed
next
  case (CancelMatch p)
  with assms show ?thesis
    by (simp add: cancelMatch_def rooms_inv_def rooms_removeWaiting)
next
  case (UpdateGuess p guess)
  show ?thesis
  proof (cases "roomOf s p")
    case None
    with assms UpdateGuess show ?thesis by (simp add: updateGuess_def)
  next
    case (Some a)
    obtain rid room where a: "a = (rid, room)" by (cases a)
    from Some a have "rooms s rid = Some room" by (simp add: roomOf_Some)
    with assms have "room_inv rid room" by (simp add: rooms_inv_def)
    then have "room_inv rid (updatePlayerGuess room p guess)"
      by (rule room_inv_updatePlayerGuess)
    with assms Some a UpdateGuess show ?thesis
      by (simp add: updateGuess_def Let_def rooms_inv_update)
  qed
next
  case (SubmitGuess p guess)
  show ?thesis
  proof (cases "roomOf s p")
    case None
    with assms SubmitGuess show ?thesis by (simp add: submitGuess_def)
  next
    case (Some a)
    obtain rid room where a: "a = (rid, room)" by (cases a)
    from Some a have "rooms s rid = Some room" by (simp add: roomOf_Some)
    with assms have "room_inv rid room" by (simp add: rooms_inv_def)
    then have "room_inv rid (submitPlayerGuess room p guess (checkGuess guess (targetWord room)))"
      by (rule room_inv_submitPlayerGuess)
    with assms Some a SubmitGuess show ?thesis
      by (simp add: submitGuess_def Let_def rooms_inv_update)
  qed
next
  case (NewRound p draw)
  show ?thesis
  proof (cases "roomOf s p")
    case None
    with assms NewRound show ?thesis by (simp add: newRound_def)
  next
    case (Some a)
    obtain rid room where a: "a = (rid, room)" by (cases a)
    from Some a have "rooms s rid = Some room" by (simp add: roomOf_Some)
    with assms have "room_inv rid room" by (simp add: rooms_inv_def)
    then have "room_inv rid (startNewRound room draw)"
      by (rule room_inv_startNewRound)
    with assms Some a NewRound show ?thesis
      by (simp add: newRound_def Let_def rooms_inv_update)
  qed
next
  case (Disconnect p)
  with assms show ?thesis
    by (simp add: disconnect_def Let_def rooms_inv_def rooms_removeWaiting split: option.splits)
next
  case (StartRoundTimer rid draw)
  show ?thesis
  proof (cases "rooms s rid")
    case None
    with assms StartRoundTimer show ?thesis by (simp add: startRoundLater_def)
  next
    case (Some room)
    with assms have "room_inv rid room" by (simp add: rooms_inv_def)
    then have "room_inv rid (startNewRound room draw)"
      by (rule room_inv_startNewRound)
    with assms Some StartRoundTimer show ?thesis
      by (simp add: startRoundLater_def Let_def rooms_inv_update)
  qed
qed

lemma reachable_rooms_inv: "reachable s \<Longrightarrow> rooms_inv s"
proof (induction rule: reachable.induct)
  case reachable_init
  then show ?case by (simp add: rooms_inv_def init_def)
next
  case (reachable_step s e)
  then show ?case by (intro rooms_inv_handle)
qed

lemma reachable_room_inv: "reachable s \<Longrightarrow> rooms s rid = Some room \<Longrightarrow> room_inv rid room"
  using reachable_rooms_inv by (simp add: rooms_inv_def)

subsection \<open>The winner\<close>

lemma room_inv_distinct: "room_inv rid room \<Longrightarrow> distinct (map fst (players room))"
  by (auto simp: room_inv_def split: if_splits)

lemma find_won_cases:
  "(find won (map snd kvs) = None \<and> (\<forall>kv \<in> set kvs. \<not> won (snd kv))) \<or>
   (\<exists>k v. find won (map snd kvs) = Some v \<and> (k, v) \<in> set kvs \<and> won v)"
  by (induction kvs) auto

text \<open>
  Claim C7, as amended. For every room of a reachable server, \<open>getWinner\<close> returns the
  id of the player whose \<open>won\<close> flag is true when there is exactly one such player,
  whether or not the other player is finished; it returns none when no player has won,
  which is the case of the draw; and an id that it returns is the id of a player of the
  room who has won and is finished.
\<close>

theorem getWinner_reachable:
  assumes "reachable s" and "rooms s rid = Some room"
  shows "(obj_get (players room) p = Some player \<and> won player \<and>
            (\<forall>q other. obj_get (players room) q = Some other \<and> won other \<longrightarrow> q = p)
          \<longrightarrow> getWinner room = Some p) \<and>
         ((\<forall>q other. obj_get (players room) q = Some other \<longrightarrow> \<not> won other)
          \<longrightarrow> getWinner room = None) \<and>
         (getWinner room = Some p
          \<longrightarrow> (\<exists>winner. obj_get (players room) p = Some winner \<and> won winner \<and> finished winner))"
proof -
  from assms have inv: "room_inv rid room"
    by (rule reachable_room_inv)
  then have dist: "distinct (map fst (players room))"
    by (rule room_inv_distinct)
  from inv have pinv: "\<forall>kv \<in> set (players room). player_inv kv"
    by (simp add: room_inv_def list_all_iff)
  have entry: "obj_get (players room) k = Some v \<and> id_player v = k \<and> (won v \<longrightarrow> finished v)"
    if "(k, v) \<in> set (players room)" for k v
    using that dist pinv by (auto simp: obj_get_distinct player_inv_def)
  from find_won_cases [of "players room"] show ?thesis
  proof (elim disjE conjE exE)
    assume none: "find won (map snd (players room)) = None"
      and nowin: "\<forall>kv \<in> set (players room). \<not> won (snd kv)"
    have no: "\<not> (obj_get (players room) p = Some player \<and> won player)"
    proof
      assume a: "obj_get (players room) p = Some player \<and> won player"
      then have "(p, player) \<in> set (players room)"
        by (simp add: obj_get_Some_mem)
      with nowin have "\<not> won (snd (p, player))"
        by (rule bspec)
      with a show False by simp
    qed
    from none have g: "getWinner room = None"
      by (simp add: getWinner_def)
    from no have c1: "obj_get (players room) p = Some player \<and> won player \<and>
        (\<forall>q other. obj_get (players room) q = Some other \<and> won other \<longrightarrow> q = p)
        \<longrightarrow> getWinner room = Some p"
      by blast
    from g c1 show ?thesis
      by simp
  next
    fix k v
    assume some: "find won (map snd (players room)) = Some v"
      and mem: "(k, v) \<in> set (players room)" and w: "won v"
    from entry [OF mem] w have e: "obj_get (players room) k = Some v" "id_player v = k" "finished v"
      by simp_all
    from some e have g: "getWinner room = Some k"
      by (simp add: getWinner_def)
    show ?thesis
      using g e w by auto
  qed
qed

subsection \<open>The example runs\<close>

lemmas run_defs = init_def findMatch_def startRoundLater_def submitGuess_def roomOf_def
  makeRoomId_def GameRoom_new_def getRandomWord_def WORD_LIST_def startNewRound_def
  resetPlayer_def newPlayer_def alice_def bob_def carol_def room_B_A_def Let_def

lemma reachable_matched: "reachable matched"
  unfolding matched_def
  by (rule reachable_run [OF reachable_init]) (simp add: WORD_LIST_def)

lemma reachable_bob_won: "reachable bob_won"
  unfolding bob_won_def
  by (rule reachable_run [OF reachable_matched]) (simp add: WORD_LIST_def)

lemma rooms_matched:
  "rooms matched room_B_A = Some (GameRoom_new room_B_A bob alice 0)"
  by (simp add: matched_def run_defs)

lemma socket_roomId_matched:
  "socket_roomId matched bob = Some room_B_A" "socket_roomId matched alice = Some room_B_A"
  by (simp_all add: matched_def run_defs)

lemma checkGuess_first_word: "checkGuess [0x7816] [0x7816] = [Some Correct]"
  by (simp add: checkGuess_self)

lemma checkGuess_wrong_letter: "checkGuess [0x41] [0x7816] = [Some Absent]"
  by (simp add: checkGuess_def normalizeHebrew_def normalizeChar_eq forEach_def exactPass_def
      presentPass_def findIndex_def nth_opt_def array_set_def array_get_def)

lemma rooms_bob_won: "rooms bob_won room_B_A = Some bob_won_room"
  by (simp add: bob_won_def matched_def bob_won_room_def run_defs checkGuess_first_word
      submitPlayerGuess_def recordGuess_def every_def)

theorem getWinner_reachable_witness:
  "reachable bob_won \<and> rooms bob_won room_B_A = Some bob_won_room \<and>
   map_option won (obj_get (players bob_won_room) bob) = Some True \<and>
   map_option won (obj_get (players bob_won_room) alice) = Some False \<and>
   getWinner bob_won_room = Some bob"
proof -
  let ?bob = "\<lparr>id_player = bob, guesses = [\<lparr>word = [0x7816], result = [Some Correct]\<rparr>],
                 currentGuess = [], won = True, finished = True, score = 1\<rparr>"
  have b: "obj_get (players bob_won_room) bob = Some ?bob"
    by (simp add: bob_won_room_def)
  have a: "obj_get (players bob_won_room) alice = Some (newPlayer alice)"
    by (simp add: bob_won_room_def alice_def bob_def)
  have only: "\<forall>q other. obj_get (players bob_won_room) q = Some other \<and> won other \<longrightarrow> q = bob"
    by (auto simp: bob_won_room_def newPlayer_def split: if_splits)
  from getWinner_reachable [OF reachable_bob_won rooms_bob_won, of bob ?bob] b only
  have "getWinner bob_won_room = Some bob"
    by simp
  with reachable_bob_won rooms_bob_won a b show ?thesis
    by (simp add: newPlayer_def)
qed

theorem getWinner_round_not_over_counterexample:
  "reachable bob_won \<and> rooms bob_won room_B_A = Some bob_won_room \<and>
   \<not> isGameOver bob_won_room \<and> getWinner bob_won_room = Some bob"
  using reachable_bob_won rooms_bob_won
  by (simp add: bob_won_room_def isGameOver_def getWinner_def newPlayer_def)

subsection \<open>Rejected submissions\<close>

lemma submitGuess_accepted:
  assumes "roomOf s socket = Some (rid, room)" and "guess \<noteq> []"
    and "length guess = length (targetWord room)"
  shows "fst (submitGuess s socket guess) =
    s\<lparr>rooms := (rooms s)(rid \<mapsto>
        submitPlayerGuess room socket guess (checkGuess guess (targetWord room)))\<rparr>"
  using assms by (simp add: submitGuess_def Let_def)

lemma obj_get_submitPlayerGuess:
  assumes "obj_get (players room) p = Some player"
  shows "obj_get (players (submitPlayerGuess room p guess res)) p =
    Some (recordGuess player guess res)"
  using assms by (simp add: submitPlayerGuess_def obj_get_obj_set)

lemma playerOf_submitGuess:
  assumes "roomOf s socket = Some (rid, room)" and "guess \<noteq> []"
    and "length guess = length (targetWord room)"
    and "obj_get (players room) socket = Some player"
  shows "playerOf (fst (submitGuess s socket guess)) rid socket =
    Some (recordGuess player guess (checkGuess guess (targetWord room)))"
  by (simp add: submitGuess_accepted [OF assms(1-3)] playerOf_def
      obj_get_submitPlayerGuess [OF assms(4)])

lemma recordGuess_pushes:
  "guesses (recordGuess player guess res) = guesses player @ [\<lparr>word = guess, result = res\<rparr>]"
  "currentGuess (recordGuess player guess res) = []"
  by (simp_all add: recordGuess_def Let_def)

lemma submitGuess_passes:
  assumes "roomOf s socket = Some (rid, room)" and "guess \<noteq> []"
    and "length guess = length (targetWord room)"
  shows "submitGuess s socket guess =
    (s\<lparr>rooms := (rooms s)(rid \<mapsto>
         submitPlayerGuess room socket guess (checkGuess guess (targetWord room)))\<rparr>,
     GameUpdate rid
       (getGameState (submitPlayerGuess room socket guess (checkGuess guess (targetWord room)))) #
     (if isGameOver (submitPlayerGuess room socket guess (checkGuess guess (targetWord room)))
      then [GameOverLater rid] else []))"
  using assms by (simp add: submitGuess_def Let_def)

text \<open>
  Claim C1, as amended. A call of \<open>submitGuess\<close> is rejected, which leaves the whole
  server as it was (no guess recorded, no field written) and sends nothing, exactly when
  the socket has no room in the registry, or the word is empty, or the length of the word
  differs from the length of the target word. Every other call is accepted: the room is
  written back as \<open>submitPlayerGuess\<close> leaves it and \<open>gameUpdate\<close> is sent, and when the
  caller is a player of the room, the record of the word and of its marks against the
  target word is appended to the caller's guesses and the caller's \<open>currentGuess\<close> is
  cleared. Whether the round has started and whether the player is finished is not
  looked at.
\<close>

theorem submitGuess_guard:
  "(submitGuess s socket guess = (s, []) \<longleftrightarrow>
     (case roomOf s socket of
        None \<Rightarrow> True
      | Some (r, rm) \<Rightarrow> guess = [] \<or> length guess \<noteq> length (targetWord rm))) \<and>
   (roomOf s socket = Some (rid, room) \<and> guess \<noteq> [] \<and>
      length guess = length (targetWord room)
    \<longrightarrow> submitGuess s socket guess =
          (s\<lparr>rooms := (rooms s)(rid \<mapsto>
               submitPlayerGuess room socket guess (checkGuess guess (targetWord room)))\<rparr>,
           GameUpdate rid
             (getGameState
               (submitPlayerGuess room socket guess (checkGuess guess (targetWord room)))) #
           (if isGameOver
                 (submitPlayerGuess room socket guess (checkGuess guess (targetWord room)))
            then [GameOverLater rid] else []))) \<and>
   (roomOf s socket = Some (rid, room) \<and> guess \<noteq> [] \<and>
      length guess = length (targetWord room) \<and> obj_get (players room) socket = Some player
    \<longrightarrow> map_option guesses (playerOf (fst (submitGuess s socket guess)) rid socket) =
          Some (guesses player @
                [\<lparr>word = guess, result = checkGuess guess (targetWord room)\<rparr>]) \<and>
        map_option currentGuess (playerOf (fst (submitGuess s socket guess)) rid socket) =
          Some [])"
proof (intro conjI)
  show "submitGuess s socket guess = (s, []) \<longleftrightarrow>
     (case roomOf s socket of
        None \<Rightarrow> True
      | Some (r, rm) \<Rightarrow> guess = [] \<or> length guess \<noteq> length (targetWord rm))"
    by (simp add: submitGuess_def Let_def split: option.splits prod.splits)
  show "roomOf s socket = Some (rid, room) \<and> guess \<noteq> [] \<and>
      length guess = length (targetWord room)
    \<longrightarrow> submitGuess s socket guess =
          (s\<lparr>rooms := (rooms s)(rid \<mapsto>
               submitPlayerGuess room socket guess (checkGuess guess (targetWord room)))\<rparr>,
           GameUpdate rid
             (getGameState
               (submitPlayerGuess room socket guess (checkGuess guess (targetWord room)))) #
           (if isGameOver
                 (submitPlayerGuess room socket guess (checkGuess guess (targetWord room)))
            then [GameOverLater rid] else []))"
  proof (intro impI, elim conjE)
    assume "roomOf s socket = Some (rid, room)" and "guess \<noteq> []"
      and "length guess = length (targetWord room)"
    then show "submitGuess s socket guess =
          (s\<lparr>rooms := (rooms s)(rid \<mapsto>
               submitPlayerGuess room socket guess (checkGuess guess (targetWord room)))\<rparr>,
           GameUpdate rid
             (getGameState
               (submitPlayerGuess room socket guess (checkGuess guess (targetWord room)))) #
           (if isGameOver
                 (submitPlayerGuess room socket guess (checkGuess guess (targetWord room)))
            then [GameOverLater rid] else []))"
      by (rule submitGuess_passes)
  qed
  show "roomOf s socket = Some (rid, room) \<and> guess \<noteq> [] \<and>
      length guess = length (targetWord room) \<and> obj_get (players room) socket = Some player
    \<longrightarrow> map_option guesses (playerOf (fst (submitGuess s socket guess)) rid socket) =
          Some (guesses player @
                [\<lparr>word = guess, result = checkGuess guess (targetWord room)\<rparr>]) \<and>
        map_option currentGuess (playerOf (fst (submitGuess s socket guess)) rid socket) =
          Some []"
  proof (intro impI, elim conjE)
    assume a: "roomOf s socket = Some (rid, room)" "guess \<noteq> []"
      "length guess = length (targetWord room)" "obj_get (players room) socket = Some player"
    show "map_option guesses (playerOf (fst (submitGuess s socket guess)) rid socket) =
          Some (guesses player @
                [\<lparr>word = guess, result = checkGuess guess (targetWord room)\<rparr>]) \<and>
        map_option currentGuess (playerOf (fst (submitGuess s socket guess)) rid socket) =
          Some []"
      by (simp add: playerOf_submitGuess [OF a] recordGuess_pushes)
  qed
qed

theorem submitGuess_guard_witness:
  "roomOf matched bob = Some (room_B_A, GameRoom_new room_B_A bob alice 0) \<and>
   length (targetWord (GameRoom_new room_B_A bob alice 0)) = 1 \<and>
   submitGuess matched bob [0x41, 0x42] = (matched, []) \<and>
   submitGuess matched bob [] = (matched, []) \<and>
   submitGuess init bob [0x7816] = (init, []) \<and>
   \<not> gameStarted (GameRoom_new room_B_A bob alice 0) \<and>
   map_option guesses (playerOf (fst (submitGuess matched bob [0x7816])) room_B_A bob) =
     Some [\<lparr>word = [0x7816], result = [Some Correct]\<rparr>] \<and>
   map_option guesses (playerOf (fst (submitGuess matched bob [0x41])) room_B_A bob) =
     Some [\<lparr>word = [0x41], result = [Some Absent]\<rparr>] \<and>
   roomOf bob_won bob = Some (room_B_A, bob_won_room) \<and>
   map_option finished (obj_get (players bob_won_room) bob) = Some True \<and>
   map_option guesses (playerOf (fst (submitGuess bob_won bob [0x41])) room_B_A bob) =
     Some [\<lparr>word = [0x7816], result = [Some Correct]\<rparr>,
           \<lparr>word = [0x41], result = [Some Absent]\<rparr>]"
proof -
  have r: "roomOf matched bob = Some (room_B_A, GameRoom_new room_B_A bob alice 0)"
    by (simp add: roomOf_def socket_roomId_matched rooms_matched)
  have t: "targetWord (GameRoom_new room_B_A bob alice 0) = [0x7816]"
    by (simp add: GameRoom_new_def getRandomWord_def WORD_LIST_def)
  have n: "roomOf init bob = None"
    by (simp add: roomOf_def init_def)
  have g: "\<not> gameStarted (GameRoom_new room_B_A bob alice 0)"
    by (simp add: GameRoom_new_def)
  have pb: "obj_get (players (GameRoom_new room_B_A bob alice 0)) bob = Some (newPlayer bob)"
    by (simp add: GameRoom_new_def alice_def bob_def)
  have sb: "socket_roomId bob_won bob = Some room_B_A"
    by (simp add: bob_won_def matched_def run_defs checkGuess_first_word)
  have rb: "roomOf bob_won bob = Some (room_B_A, bob_won_room)"
    by (simp add: roomOf_def sb rooms_bob_won)
  have tb: "targetWord bob_won_room = [0x7816]"
    by (simp add: bob_won_room_def)
  have pw: "obj_get (players bob_won_room) bob =
      Some \<lparr>id_player = bob, guesses = [\<lparr>word = [0x7816], result = [Some Correct]\<rparr>],
            currentGuess = [], won = True, finished = True, score = 1\<rparr>"
    by (simp add: bob_won_room_def)
  from submitGuess_guard [of matched bob "[0x41, 0x42]"] r t
  have r1: "submitGuess matched bob [0x41, 0x42] = (matched, [])"
    by simp
  from submitGuess_guard [of matched bob "[]"] r
  have r2: "submitGuess matched bob [] = (matched, [])"
    by simp
  from submitGuess_guard [of init bob "[0x7816]"] n
  have r3: "submitGuess init bob [0x7816] = (init, [])"
    by simp
  have h1: "roomOf matched bob = Some (room_B_A, GameRoom_new room_B_A bob alice 0) \<and>
      [0x7816] \<noteq> ([] :: jsstring) \<and>
      length ([0x7816] :: jsstring) = length (targetWord (GameRoom_new room_B_A bob alice 0)) \<and>
      obj_get (players (GameRoom_new room_B_A bob alice 0)) bob = Some (newPlayer bob)"
    by (simp add: r t pb)
  from submitGuess_guard [of matched bob "[0x7816]" room_B_A
      "GameRoom_new room_B_A bob alice 0" "newPlayer bob",
      THEN conjunct2, THEN conjunct2, THEN mp, OF h1, THEN conjunct1]
  have a1: "map_option guesses (playerOf (fst (submitGuess matched bob [0x7816])) room_B_A bob) =
     Some [\<lparr>word = [0x7816], result = [Some Correct]\<rparr>]"
    by (simp add: newPlayer_def t checkGuess_first_word)
  have h2: "roomOf matched bob = Some (room_B_A, GameRoom_new room_B_A bob alice 0) \<and>
      [0x41] \<noteq> ([] :: jsstring) \<and>
      length ([0x41] :: jsstring) = length (targetWord (GameRoom_new room_B_A bob alice 0)) \<and>
      obj_get (players (GameRoom_new room_B_A bob alice 0)) bob = Some (newPlayer bob)"
    by (simp add: r t pb)
  from submitGuess_guard [of matched bob "[0x41]" room_B_A
      "GameRoom_new room_B_A bob alice 0" "newPlayer bob",
      THEN conjunct2, THEN conjunct2, THEN mp, OF h2, THEN conjunct1]
  have a2: "map_option guesses (playerOf (fst (submitGuess matched bob [0x41])) room_B_A bob) =
     Some [\<lparr>word = [0x41], result = [Some Absent]\<rparr>]"
    by (simp add: newPlayer_def t checkGuess_wrong_letter)
  have h3: "roomOf bob_won bob = Some (room_B_A, bob_won_room) \<and>
      [0x41] \<noteq> ([] :: jsstring) \<and>
      length ([0x41] :: jsstring) = length (targetWord bob_won_room) \<and>
      obj_get (players bob_won_room) bob =
        Some \<lparr>id_player = bob, guesses = [\<lparr>word = [0x7816], result = [Some Correct]\<rparr>],
            currentGuess = [], won = True, finished = True, score = 1\<rparr>"
    by (simp add: rb tb pw)
  from submitGuess_guard [of bob_won bob "[0x41]" room_B_A bob_won_room
      "\<lparr>id_player = bob, guesses = [\<lparr>word = [0x7816], result = [Some Correct]\<rparr>],
            currentGuess = [], won = True, finished = True, score = 1\<rparr>",
      THEN conjunct2, THEN conjunct2, THEN mp, OF h3, THEN conjunct1]
  have a3: "map_option guesses (playerOf (fst (submitGuess bob_won bob [0x41])) room_B_A bob) =
     Some [\<lparr>word = [0x7816], result = [Some Correct]\<rparr>,
           \<lparr>word = [0x41], result = [Some Absent]\<rparr>]"
    by (simp add: tb checkGuess_wrong_letter)
  have f: "map_option finished (obj_get (players bob_won_room) bob) = Some True"
    by (simp add: pw)
  have l: "length (targetWord (GameRoom_new room_B_A bob alice 0)) = 1"
    by (simp add: t)
  from r l r1 r2 r3 g a1 a2 rb f a3 show ?thesis
    by (intro conjI)
qed

theorem submitGuess_not_active_counterexample:
  "roomOf matched bob = Some (room_B_A, GameRoom_new room_B_A bob alice 0) \<and>
   \<not> gameStarted (GameRoom_new room_B_A bob alice 0) \<and>
   submitGuess matched bob [0x7816] \<noteq> (matched, []) \<and>
   map_option (length \<circ> guesses) (playerOf (fst (submitGuess matched bob [0x7816])) room_B_A bob)
     = Some 1 \<and>
   map_option finished (playerOf bob_won room_B_A bob) = Some True \<and>
   map_option (length \<circ> guesses) (playerOf (fst (submitGuess bob_won bob [0x7816])) room_B_A bob)
     = Some 2"
proof -
  have r: "roomOf matched bob = Some (room_B_A, GameRoom_new room_B_A bob alice 0)"
    by (simp add: roomOf_def socket_roomId_matched rooms_matched)
  have g: "\<not> gameStarted (GameRoom_new room_B_A bob alice 0)"
    by (simp add: GameRoom_new_def)
  have t: "targetWord (GameRoom_new room_B_A bob alice 0) = [0x7816]"
    by (simp add: GameRoom_new_def getRandomWord_def WORD_LIST_def)
  have ne: "submitGuess matched bob [0x7816] \<noteq> (matched, [])"
    by (simp add: submitGuess_def r t Let_def)
  have pb: "obj_get (players (GameRoom_new room_B_A bob alice 0)) bob = Some (newPlayer bob)"
    by (simp add: GameRoom_new_def alice_def bob_def)
  have one: "map_option (length \<circ> guesses)
      (playerOf (fst (submitGuess matched bob [0x7816])) room_B_A bob) = Some 1"
    by (simp add: playerOf_submitGuess [OF r _ _ pb] t recordGuess_def newPlayer_def Let_def)
  have sb: "socket_roomId bob_won bob = Some room_B_A"
    by (simp add: bob_won_def matched_def run_defs checkGuess_first_word)
  have rb: "roomOf bob_won bob = Some (room_B_A, bob_won_room)"
    by (simp add: roomOf_def sb rooms_bob_won)
  have tb: "targetWord bob_won_room = [0x7816]"
    by (simp add: bob_won_room_def)
  have pw: "obj_get (players bob_won_room) bob =
      Some \<lparr>id_player = bob, guesses = [\<lparr>word = [0x7816], result = [Some Correct]\<rparr>],
            currentGuess = [], won = True, finished = True, score = 1\<rparr>"
    by (simp add: bob_won_room_def)
  have f: "map_option finished (playerOf bob_won room_B_A bob) = Some True"
    by (simp add: playerOf_def rooms_bob_won pw)
  have two: "map_option (length \<circ> guesses)
      (playerOf (fst (submitGuess bob_won bob [0x7816])) room_B_A bob) = Some 2"
    by (simp add: playerOf_submitGuess [OF rb _ _ pw] tb recordGuess_def Let_def)
  from r g ne one f two show ?thesis
    by (intro conjI)
qed

subsection \<open>The number of guesses\<close>

lemma list_all_player_inv_ops:
  assumes "list_all player_inv (players room)"
  shows "list_all player_inv (players (startNewRound room draw))"
    and "list_all player_inv (players (updatePlayerGuess room q guess))"
    and "list_all player_inv (players (submitPlayerGuess room q guess res))"
proof -
  have "list_all player_inv (map (map_prod (\<lambda>k. k) resetPlayer) kvs)"
    if "list_all player_inv kvs" for kvs
    using that by (induction kvs) (auto simp: player_inv_resetPlayer)
  with assms show "list_all player_inv (players (startNewRound room draw))"
    by (simp add: startNewRound_def)
  have entry: "player_inv (q, player)" if "obj_get (players room) q = Some player" for player
    using that assms by (auto simp: list_all_iff dest: obj_get_Some_mem)
  show "list_all player_inv (players (updatePlayerGuess room q guess))"
    using assms entry
    by (cases "obj_get (players room) q")
       (simp_all add: updatePlayerGuess_def list_all_obj_set player_inv_currentGuess)
  show "list_all player_inv (players (submitPlayerGuess room q guess res))"
    using assms entry
    by (cases "obj_get (players room) q")
       (simp_all add: submitPlayerGuess_def list_all_obj_set player_inv_recordGuess)
qed

lemma recordGuess_playing:
  assumes "\<not> finished player" and "length (guesses player) < 6"
  shows "guesses (recordGuess player guess res) =
           guesses player @ [\<lparr>word = guess, result = res\<rparr>]"
    and "length (guesses (recordGuess player guess res)) \<le> 6"
    and "finished (recordGuess player guess res) \<longleftrightarrow>
           every res (\<lambda>r. r = Correct) \<or> length (guesses (recordGuess player guess res)) = 6"
    and "won (recordGuess player guess res) \<longleftrightarrow> won player \<or> every res (\<lambda>r. r = Correct)"
  using assms by (auto simp add: recordGuess_def Let_def)

text \<open>
  Claim C2, as amended. In every room of a reachable server a player who is not
  finished has fewer than six guesses, and a player who has won is finished. Every
  operation of a room (\<open>startNewRound\<close>, \<open>updatePlayerGuess\<close>, \<open>submitPlayerGuess\<close>) keeps
  this for every player, together with the rest of \<open>player_inv\<close>. For a player of the
  room who is not finished and has fewer than six guesses, \<open>submitPlayerGuess\<close> appends
  exactly the one record, which leaves at most six; the player is finished afterwards
  exactly when every mark is correct or the guesses have reached six, and has won
  afterwards exactly when the player had won or every mark is correct.
\<close>

theorem guesses_bounded_while_playing:
  "(reachable s \<and> playerOf s rid p = Some player
      \<longrightarrow> (\<not> finished player \<longrightarrow> length (guesses player) < 6) \<and>
          (won player \<longrightarrow> finished player)) \<and>
   (list_all player_inv (players room)
      \<longrightarrow> list_all player_inv (players (startNewRound room draw)) \<and>
          list_all player_inv (players (updatePlayerGuess room q guess)) \<and>
          list_all player_inv (players (submitPlayerGuess room q guess res))) \<and>
   (obj_get (players room) q = Some before \<and> \<not> finished before \<and>
      length (guesses before) < 6
      \<longrightarrow> (\<exists>after. obj_get (players (submitPlayerGuess room q guess res)) q = Some after \<and>
             guesses after = guesses before @ [\<lparr>word = guess, result = res\<rparr>] \<and>
             length (guesses after) \<le> 6 \<and>
             (finished after \<longleftrightarrow>
                every res (\<lambda>r. r = Correct) \<or> length (guesses after) = 6) \<and>
             (won after \<longleftrightarrow> won before \<or> every res (\<lambda>r. r = Correct))))"
proof (intro conjI)
  show "reachable s \<and> playerOf s rid p = Some player
      \<longrightarrow> (\<not> finished player \<longrightarrow> length (guesses player) < 6) \<and>
          (won player \<longrightarrow> finished player)"
  proof (intro impI, elim conjE)
    assume r: "reachable s" and pl: "playerOf s rid p = Some player"
    from pl obtain room' where r': "rooms s rid = Some room'"
      and g: "obj_get (players room') p = Some player"
      by (auto simp: playerOf_def split: option.splits)
    from reachable_room_inv [OF r r'] have "list_all player_inv (players room')"
      by (simp add: room_inv_def)
    with g have "player_inv (p, player)"
      by (auto simp: list_all_iff dest: obj_get_Some_mem)
    then show "(\<not> finished player \<longrightarrow> length (guesses player) < 6) \<and>
        (won player \<longrightarrow> finished player)"
      by (auto simp: player_inv_def)
  qed
  show "list_all player_inv (players room)
      \<longrightarrow> list_all player_inv (players (startNewRound room draw)) \<and>
          list_all player_inv (players (updatePlayerGuess room q guess)) \<and>
          list_all player_inv (players (submitPlayerGuess room q guess res))"
  proof
    assume "list_all player_inv (players room)"
    from list_all_player_inv_ops [OF this]
    show "list_all player_inv (players (startNewRound room draw)) \<and>
          list_all player_inv (players (updatePlayerGuess room q guess)) \<and>
          list_all player_inv (players (submitPlayerGuess room q guess res))"
      by simp
  qed
  show "obj_get (players room) q = Some before \<and> \<not> finished before \<and>
      length (guesses before) < 6
      \<longrightarrow> (\<exists>after. obj_get (players (submitPlayerGuess room q guess res)) q = Some after \<and>
             guesses after = guesses before @ [\<lparr>word = guess, result = res\<rparr>] \<and>
             length (guesses after) \<le> 6 \<and>
             (finished after \<longleftrightarrow>
                every res (\<lambda>r. r = Correct) \<or> length (guesses after) = 6) \<and>
             (won after \<longleftrightarrow> won before \<or> every res (\<lambda>r. r = Correct)))"
  proof (intro impI, elim conjE)
    assume g: "obj_get (players room) q = Some before"
      and f: "\<not> finished before" and l: "length (guesses before) < 6"
    from obj_get_submitPlayerGuess [OF g] recordGuess_playing [OF f l, of guess res]
    have "obj_get (players (submitPlayerGuess room q guess res)) q =
          Some (recordGuess before guess res) \<and>
        guesses (recordGuess before guess res) =
          guesses before @ [\<lparr>word = guess, result = res\<rparr>] \<and>
        length (guesses (recordGuess before guess res)) \<le> 6 \<and>
        (finished (recordGuess before guess res) \<longleftrightarrow>
           every res (\<lambda>r. r = Correct) \<or> length (guesses (recordGuess before guess res)) = 6) \<and>
        (won (recordGuess before guess res) \<longleftrightarrow> won before \<or> every res (\<lambda>r. r = Correct))"
      by (intro conjI)
    then show "\<exists>after. obj_get (players (submitPlayerGuess room q guess res)) q = Some after \<and>
             guesses after = guesses before @ [\<lparr>word = guess, result = res\<rparr>] \<and>
             length (guesses after) \<le> 6 \<and>
             (finished after \<longleftrightarrow>
                every res (\<lambda>r. r = Correct) \<or> length (guesses after) = 6) \<and>
             (won after \<longleftrightarrow> won before \<or> every res (\<lambda>r. r = Correct))"
      by (rule exI)
  qed
qed

lemma reachable_seven_guesses: "reachable seven_guesses"
  unfolding seven_guesses_def
  by (rule reachable_run [OF reachable_matched]) (simp add: WORD_LIST_def)

lemma playerOf_seven_guesses:
  "map_option (length \<circ> guesses) (playerOf seven_guesses room_B_A alice) = Some 7"
  by (simp add: seven_guesses_def matched_def run_defs checkGuess_wrong_letter playerOf_def
      submitPlayerGuess_def recordGuess_def every_def)

lemma reachable_five_guesses: "reachable five_guesses"
  unfolding five_guesses_def
  by (rule reachable_run [OF reachable_matched]) (simp add: WORD_LIST_def)

lemma rooms_five_guesses: "rooms five_guesses room_B_A = Some five_guesses_room"
  by (simp add: five_guesses_def matched_def five_guesses_room_def alice_five_def
      wrong_guess_def run_defs checkGuess_wrong_letter submitPlayerGuess_def recordGuess_def
      every_def)

theorem guesses_bounded_while_playing_witness:
  "reachable five_guesses \<and> playerOf five_guesses room_B_A alice = Some alice_five \<and>
   \<not> finished alice_five \<and> length (guesses alice_five) = 5 \<and>
   reachable bob_won \<and>
   map_option won (playerOf bob_won room_B_A bob) = Some True \<and>
   map_option finished (playerOf bob_won room_B_A bob) = Some True \<and>
   list_all player_inv (players five_guesses_room) \<and>
   list_all player_inv (players (startNewRound five_guesses_room 3)) \<and>
   list_all player_inv (players (updatePlayerGuess five_guesses_room alice [0x41])) \<and>
   list_all player_inv
     (players (submitPlayerGuess five_guesses_room alice [0x41] [Some Absent])) \<and>
   map_option (length \<circ> guesses)
     (obj_get (players (submitPlayerGuess five_guesses_room alice [0x41] [Some Absent])) alice) =
     Some 6 \<and>
   map_option finished
     (obj_get (players (submitPlayerGuess five_guesses_room alice [0x41] [Some Absent])) alice) =
     Some True \<and>
   map_option won
     (obj_get (players (submitPlayerGuess five_guesses_room alice [0x41] [Some Absent])) alice) =
     Some False \<and>
   map_option (length \<circ> guesses)
     (obj_get (players (submitPlayerGuess five_guesses_room bob [0x41] [Some Absent])) bob) =
     Some 1 \<and>
   map_option finished
     (obj_get (players (submitPlayerGuess five_guesses_room bob [0x41] [Some Absent])) bob) =
     Some False \<and>
   map_option won
     (obj_get (players (submitPlayerGuess five_guesses_room bob [0x7816] [Some Correct])) bob) =
     Some True \<and>
   map_option finished
     (obj_get (players (submitPlayerGuess five_guesses_room bob [0x7816] [Some Correct])) bob) =
     Some True"
proof -
  have ne: "bob \<noteq> alice"
    by (simp add: alice_def bob_def)
  have ga: "obj_get (players five_guesses_room) alice = Some alice_five"
    using ne by (simp add: five_guesses_room_def)
  have gb: "obj_get (players five_guesses_room) bob = Some (newPlayer bob)"
    by (simp add: five_guesses_room_def)
  have pa: "playerOf five_guesses room_B_A alice = Some alice_five"
    by (simp add: playerOf_def rooms_five_guesses ga)
  have fa: "\<not> finished alice_five" and la: "length (guesses alice_five) = 5"
    by (simp_all add: alice_five_def)
  have fb: "\<not> finished (newPlayer bob)" and lb: "length (guesses (newPlayer bob)) < 6"
    and wb: "\<not> won (newPlayer bob)"
    by (simp_all add: newPlayer_def)
  have pw: "playerOf bob_won room_B_A bob =
      Some \<lparr>id_player = bob, guesses = [\<lparr>word = [0x7816], result = [Some Correct]\<rparr>],
            currentGuess = [], won = True, finished = True, score = 1\<rparr>"
    by (simp add: playerOf_def rooms_bob_won bob_won_room_def)
  have won_bob: "map_option won (playerOf bob_won room_B_A bob) = Some True"
    by (simp add: pw)
  have h1: "reachable five_guesses \<and> playerOf five_guesses room_B_A alice = Some alice_five"
    using reachable_five_guesses pa by (rule conjI)
  from guesses_bounded_while_playing [where s = five_guesses and rid = room_B_A and p = alice
      and player = alice_five, THEN conjunct1, THEN mp, OF h1, THEN conjunct1] fa
  have "length (guesses alice_five) < 6"
    by simp
  have h2: "reachable bob_won \<and> playerOf bob_won room_B_A bob =
      Some \<lparr>id_player = bob, guesses = [\<lparr>word = [0x7816], result = [Some Correct]\<rparr>],
            currentGuess = [], won = True, finished = True, score = 1\<rparr>"
    using reachable_bob_won pw by (rule conjI)
  from guesses_bounded_while_playing [where s = bob_won and rid = room_B_A and p = bob,
      THEN conjunct1, THEN mp, OF h2, THEN conjunct2] pw
  have fin_bob: "map_option finished (playerOf bob_won room_B_A bob) = Some True"
    by simp
  have i: "list_all player_inv (players five_guesses_room)"
    by (simp add: five_guesses_room_def player_inv_def alice_five_def newPlayer_def)
  note ops = guesses_bounded_while_playing [where room = five_guesses_room and draw = 3
      and q = alice and guess = "[0x41]" and res = "[Some Absent]",
      THEN conjunct2, THEN conjunct1, THEN mp, OF i]
  have h3: "obj_get (players five_guesses_room) alice = Some alice_five \<and>
      \<not> finished alice_five \<and> length (guesses alice_five) < 6"
    using ga fa la by simp
  from guesses_bounded_while_playing [where room = five_guesses_room and q = alice
      and before = alice_five and guess = "[0x41]" and res = "[Some Absent]",
      THEN conjunct2, THEN conjunct2, THEN mp, OF h3]
  obtain a6 where a6:
    "obj_get (players (submitPlayerGuess five_guesses_room alice [0x41] [Some Absent])) alice =
       Some a6"
    "guesses a6 = guesses alice_five @ [\<lparr>word = [0x41], result = [Some Absent]\<rparr>]"
    "finished a6 \<longleftrightarrow> every [Some Absent] (\<lambda>r. r = Correct) \<or> length (guesses a6) = 6"
    "won a6 \<longleftrightarrow> won alice_five \<or> every [Some Absent] (\<lambda>r. r = Correct)"
    by (elim exE conjE)
  have six: "map_option (length \<circ> guesses)
     (obj_get (players (submitPlayerGuess five_guesses_room alice [0x41] [Some Absent])) alice) =
     Some 6"
    by (simp add: a6(1,2) la)
  have six_fin: "map_option finished
     (obj_get (players (submitPlayerGuess five_guesses_room alice [0x41] [Some Absent])) alice) =
     Some True"
    using a6(3) by (simp add: a6(1,2) la)
  have six_won: "map_option won
     (obj_get (players (submitPlayerGuess five_guesses_room alice [0x41] [Some Absent])) alice) =
     Some False"
    using a6(4) by (simp add: a6(1) every_def alice_five_def)
  have h4: "obj_get (players five_guesses_room) bob = Some (newPlayer bob) \<and>
      \<not> finished (newPlayer bob) \<and> length (guesses (newPlayer bob)) < 6"
    using gb fb lb by simp
  from guesses_bounded_while_playing [where room = five_guesses_room and q = bob
      and before = "newPlayer bob" and guess = "[0x41]" and res = "[Some Absent]",
      THEN conjunct2, THEN conjunct2, THEN mp, OF h4]
  obtain b1 where b1:
    "obj_get (players (submitPlayerGuess five_guesses_room bob [0x41] [Some Absent])) bob =
       Some b1"
    "guesses b1 = guesses (newPlayer bob) @ [\<lparr>word = [0x41], result = [Some Absent]\<rparr>]"
    "finished b1 \<longleftrightarrow> every [Some Absent] (\<lambda>r. r = Correct) \<or> length (guesses b1) = 6"
    by (elim exE conjE)
  have one: "map_option (length \<circ> guesses)
     (obj_get (players (submitPlayerGuess five_guesses_room bob [0x41] [Some Absent])) bob) =
     Some 1"
    by (simp add: b1(1,2) newPlayer_def)
  have one_fin: "map_option finished
     (obj_get (players (submitPlayerGuess five_guesses_room bob [0x41] [Some Absent])) bob) =
     Some False"
    using b1(3) by (simp add: b1(1,2) newPlayer_def every_def)
  from guesses_bounded_while_playing [where room = five_guesses_room and q = bob
      and before = "newPlayer bob" and guess = "[0x7816]" and res = "[Some Correct]",
      THEN conjunct2, THEN conjunct2, THEN mp, OF h4]
  obtain bw where bw:
    "obj_get (players (submitPlayerGuess five_guesses_room bob [0x7816] [Some Correct])) bob =
       Some bw"
    "finished bw \<longleftrightarrow> every [Some Correct] (\<lambda>r. r = Correct) \<or> length (guesses bw) = 6"
    "won bw \<longleftrightarrow> won (newPlayer bob) \<or> every [Some Correct] (\<lambda>r. r = Correct)"
    by (elim exE conjE)
  have win: "map_option won
     (obj_get (players (submitPlayerGuess five_guesses_room bob [0x7816] [Some Correct])) bob) =
     Some True"
    using bw(3) by (simp add: bw(1) every_def)
  have win_fin: "map_option finished
     (obj_get (players (submitPlayerGuess five_guesses_room bob [0x7816] [Some Correct])) bob) =
     Some True"
    using bw(2) by (simp add: bw(1) every_def)
  from reachable_five_guesses pa fa la reachable_bob_won won_bob fin_bob i
    ops [THEN conjunct1] ops [THEN conjunct2, THEN conjunct1]
    ops [THEN conjunct2, THEN conjunct2] six six_fin six_won one one_fin win win_fin
  show ?thesis
    by (intro conjI)
qed

theorem seven_guesses_counterexample:
  "reachable seven_guesses \<and>
   map_option (length \<circ> guesses) (playerOf seven_guesses room_B_A alice) = Some 7"
  using reachable_seven_guesses playerOf_seven_guesses by simp

subsection \<open>Matchmaking and the players of a room\<close>

lemma reachable_alice_twice: "reachable alice_twice"
  unfolding alice_twice_def
  by (rule reachable_run [OF reachable_init]) (simp add: WORD_LIST_def)

lemma reachable_alice_waiting: "reachable alice_waiting"
  unfolding alice_waiting_def
  by (rule reachable_run [OF reachable_init]) (simp add: WORD_LIST_def)

lemma waitingPlayers_alice_waiting: "waitingPlayers alice_waiting = [alice]"
  by (simp add: alice_waiting_def init_def findMatch_def)

lemma findMatch_pairs:
  assumes "waitingPlayers s = opponent # waiting"
  shows "findMatch s socket draw =
    (s\<lparr>waitingPlayers := waiting,
       rooms := (rooms s)(makeRoomId socket opponent \<mapsto>
         GameRoom_new (makeRoomId socket opponent) socket opponent draw),
       socket_roomId := (socket_roomId s)
         (socket \<mapsto> makeRoomId socket opponent, opponent \<mapsto> makeRoomId socket opponent)\<rparr>,
     [MatchFound socket (makeRoomId socket opponent) opponent socket,
      MatchFound opponent (makeRoomId socket opponent) socket opponent,
      StartRoundLater (makeRoomId socket opponent)])"
  using assms by (simp add: findMatch_def Let_def)

lemma findMatch_waits:
  assumes "waitingPlayers s = []"
  shows "findMatch s socket draw = (s\<lparr>waitingPlayers := [socket]\<rparr>, [WaitingForOpponent socket])"
  using assms by (simp add: findMatch_def)

lemma room_keys_alice_twice:
  "map_option (map fst \<circ> players) (rooms alice_twice (makeRoomId alice alice)) = Some [alice]"
  by (simp add: alice_twice_def init_def findMatch_def Let_def GameRoom_new_def)

text \<open>
  Claim C6, as amended. When \<open>findMatch\<close> pairs a socket with a different waiting
  socket, the room it creates has exactly these two ids as keys. In every room of a
  reachable server, from its creation to its deletion, no key stands twice and the keys
  are the two ids of a pairing that gives the room its id: exactly two keys when the two
  ids differ.
\<close>

theorem room_keys_from_pairing:
  "(waitingPlayers s = opponent # waiting \<and> socket \<noteq> opponent
      \<longrightarrow> map_option (map fst \<circ> players)
            (rooms (fst (findMatch s socket draw)) (makeRoomId socket opponent)) =
          Some [socket, opponent]) \<and>
   (reachable s \<and> rooms s rid = Some room
      \<longrightarrow> distinct (map fst (players room)) \<and>
          (\<exists>p1 p2. rid = makeRoomId p1 p2 \<and> set (map fst (players room)) = {p1, p2} \<and>
             (p1 \<noteq> p2 \<longrightarrow> map fst (players room) = [p1, p2])))"
proof -
  have a: "map_option (map fst \<circ> players)
      (rooms (fst (findMatch s socket draw)) (makeRoomId socket opponent)) =
      Some [socket, opponent]"
    if "waitingPlayers s = opponent # waiting" and "socket \<noteq> opponent"
    using that by (simp add: findMatch_pairs players_GameRoom_new)
  have b: "distinct (map fst (players room)) \<and>
      (\<exists>p1 p2. rid = makeRoomId p1 p2 \<and> set (map fst (players room)) = {p1, p2} \<and>
         (p1 \<noteq> p2 \<longrightarrow> map fst (players room) = [p1, p2]))"
    if "reachable s" and "rooms s rid = Some room"
  proof -
    from that have inv: "room_inv rid room"
      by (rule reachable_room_inv)
    then obtain p1 p2 where k: "rid = makeRoomId p1 p2"
      "map fst (players room) = (if p1 = p2 then [p1] else [p1, p2])"
      by (auto simp: room_inv_def)
    then have "rid = makeRoomId p1 p2 \<and> set (map fst (players room)) = {p1, p2} \<and>
        (p1 \<noteq> p2 \<longrightarrow> map fst (players room) = [p1, p2])"
      by auto
    then have "\<exists>p1 p2. rid = makeRoomId p1 p2 \<and> set (map fst (players room)) = {p1, p2} \<and>
        (p1 \<noteq> p2 \<longrightarrow> map fst (players room) = [p1, p2])"
      by (intro exI)
    with room_inv_distinct [OF inv] show ?thesis
      by (rule conjI)
  qed
  show ?thesis
  proof (rule conjI)
    show "waitingPlayers s = opponent # waiting \<and> socket \<noteq> opponent
      \<longrightarrow> map_option (map fst \<circ> players)
            (rooms (fst (findMatch s socket draw)) (makeRoomId socket opponent)) =
          Some [socket, opponent]"
    proof (intro impI, elim conjE)
      assume "waitingPlayers s = opponent # waiting" and "socket \<noteq> opponent"
      then show "map_option (map fst \<circ> players)
          (rooms (fst (findMatch s socket draw)) (makeRoomId socket opponent)) =
          Some [socket, opponent]"
        by (rule a)
    qed
    show "reachable s \<and> rooms s rid = Some room
      \<longrightarrow> distinct (map fst (players room)) \<and>
          (\<exists>p1 p2. rid = makeRoomId p1 p2 \<and> set (map fst (players room)) = {p1, p2} \<and>
             (p1 \<noteq> p2 \<longrightarrow> map fst (players room) = [p1, p2]))"
    proof (intro impI, elim conjE)
      assume "reachable s" and "rooms s rid = Some room"
      then show "distinct (map fst (players room)) \<and>
        (\<exists>p1 p2. rid = makeRoomId p1 p2 \<and> set (map fst (players room)) = {p1, p2} \<and>
           (p1 \<noteq> p2 \<longrightarrow> map fst (players room) = [p1, p2]))"
        by (rule b)
    qed
  qed
qed

theorem room_keys_from_pairing_witness:
  "waitingPlayers alice_waiting = [alice] \<and> bob \<noteq> alice \<and>
   map_option (map fst \<circ> players)
     (rooms (fst (findMatch alice_waiting bob 0)) (makeRoomId bob alice)) = Some [bob, alice] \<and>
   reachable matched \<and> rooms matched room_B_A = Some (GameRoom_new room_B_A bob alice 0) \<and>
   distinct (map fst (players (GameRoom_new room_B_A bob alice 0))) \<and>
   (\<exists>p1 p2. room_B_A = makeRoomId p1 p2 \<and>
      set (map fst (players (GameRoom_new room_B_A bob alice 0))) = {p1, p2})"
proof -
  have ne: "bob \<noteq> alice"
    by (simp add: alice_def bob_def)
  from room_keys_from_pairing [where s = alice_waiting and opponent = alice and waiting = "[]"
      and socket = bob and draw = 0]
    waitingPlayers_alice_waiting ne
  have a: "map_option (map fst \<circ> players)
     (rooms (fst (findMatch alice_waiting bob 0)) (makeRoomId bob alice)) = Some [bob, alice]"
    by simp
  have pre: "reachable matched \<and> rooms matched room_B_A = Some (GameRoom_new room_B_A bob alice 0)"
    using reachable_matched rooms_matched by (rule conjI)
  from room_keys_from_pairing [where s = matched and rid = room_B_A
      and room = "GameRoom_new room_B_A bob alice 0"]
  have "reachable matched \<and> rooms matched room_B_A = Some (GameRoom_new room_B_A bob alice 0)
      \<longrightarrow> distinct (map fst (players (GameRoom_new room_B_A bob alice 0))) \<and>
        (\<exists>p1 p2. room_B_A = makeRoomId p1 p2 \<and>
           set (map fst (players (GameRoom_new room_B_A bob alice 0))) = {p1, p2} \<and>
           (p1 \<noteq> p2 \<longrightarrow> map fst (players (GameRoom_new room_B_A bob alice 0)) = [p1, p2]))"
    by (rule conjunct2)
  from mp [OF this pre] obtain p1 p2
    where d: "distinct (map fst (players (GameRoom_new room_B_A bob alice 0)))"
      and k: "room_B_A = makeRoomId p1 p2"
        "set (map fst (players (GameRoom_new room_B_A bob alice 0))) = {p1, p2}"
    by (elim conjE exE)
  from k have ex: "\<exists>p1 p2. room_B_A = makeRoomId p1 p2 \<and>
      set (map fst (players (GameRoom_new room_B_A bob alice 0))) = {p1, p2}"
    by (intro exI conjI)
  with d have b: "distinct (map fst (players (GameRoom_new room_B_A bob alice 0))) \<and>
   (\<exists>p1 p2. room_B_A = makeRoomId p1 p2 \<and>
      set (map fst (players (GameRoom_new room_B_A bob alice 0))) = {p1, p2})"
    by (rule conjI)
  from waitingPlayers_alice_waiting ne a reachable_matched rooms_matched d ex show ?thesis
    by (intro conjI)
qed

theorem self_paired_room_counterexample:
  "reachable alice_twice \<and>
   map_option (map fst \<circ> players) (rooms alice_twice (makeRoomId alice alice)) = Some [alice]"
  using reachable_alice_twice room_keys_alice_twice by simp

text \<open>
  Claim C5, as amended. A \<open>findMatch\<close> of a socket that is already waiting never
  appends it a second time: the call takes the oldest entry off the waiting list, which in
  a reachable server leaves the list empty. \<open>findMatch\<close> does not read the \<open>roomId\<close> of
  the calling socket: a socket that already has a room is paired with the oldest waiting
  socket when there is one, and waits otherwise; the waiting list, the rooms and the
  messages after the call are the same whatever the sockets' \<open>roomId\<close> are.
\<close>

theorem findMatch_not_guarded:
  "(reachable s \<and> socket \<in> set (waitingPlayers s)
      \<longrightarrow> waitingPlayers (fst (findMatch s socket draw)) = []) \<and>
   (socket \<in> set (waitingPlayers s)
      \<longrightarrow> waitingPlayers (fst (findMatch s socket draw)) = tl (waitingPlayers s)) \<and>
   (socket_roomId s socket = Some old \<and> waitingPlayers s = opponent # waiting
      \<longrightarrow> socket_roomId (fst (findMatch s socket draw)) socket = Some (makeRoomId socket opponent) \<and>
          rooms (fst (findMatch s socket draw)) (makeRoomId socket opponent) =
            Some (GameRoom_new (makeRoomId socket opponent) socket opponent draw)) \<and>
   (socket_roomId s socket = Some old \<and> waitingPlayers s = []
      \<longrightarrow> waitingPlayers (fst (findMatch s socket draw)) = [socket]) \<and>
   waitingPlayers (fst (findMatch (s\<lparr>socket_roomId := m\<rparr>) socket draw)) =
     waitingPlayers (fst (findMatch s socket draw)) \<and>
   rooms (fst (findMatch (s\<lparr>socket_roomId := m\<rparr>) socket draw)) =
     rooms (fst (findMatch s socket draw)) \<and>
   snd (findMatch (s\<lparr>socket_roomId := m\<rparr>) socket draw) = snd (findMatch s socket draw)"
proof -
  have a: "waitingPlayers (fst (findMatch s socket draw)) = []"
    if "reachable s" and "socket \<in> set (waitingPlayers s)"
  proof -
    from that(1) have "length (waitingPlayers s) \<le> 1"
      by (rule reachable_waiting)
    with that(2) obtain p where "waitingPlayers s = [p]"
      by (cases "waitingPlayers s") auto
    then show ?thesis
      by (simp add: findMatch_pairs)
  qed
  have b: "waitingPlayers (fst (findMatch s socket draw)) = tl (waitingPlayers s)"
    if "socket \<in> set (waitingPlayers s)"
    using that by (cases "waitingPlayers s") (simp_all add: findMatch_pairs)
  have c: "socket_roomId (fst (findMatch s socket draw)) socket = Some (makeRoomId socket opponent) \<and>
      rooms (fst (findMatch s socket draw)) (makeRoomId socket opponent) =
        Some (GameRoom_new (makeRoomId socket opponent) socket opponent draw)"
    if "waitingPlayers s = opponent # waiting"
    using that by (simp add: findMatch_pairs)
  have d: "waitingPlayers (fst (findMatch s socket draw)) = [socket]"
    if "waitingPlayers s = []"
    using that by (simp add: findMatch_waits)
  have e: "waitingPlayers (fst (findMatch (s\<lparr>socket_roomId := m\<rparr>) socket draw)) =
      waitingPlayers (fst (findMatch s socket draw))"
    "rooms (fst (findMatch (s\<lparr>socket_roomId := m\<rparr>) socket draw)) =
      rooms (fst (findMatch s socket draw))"
    "snd (findMatch (s\<lparr>socket_roomId := m\<rparr>) socket draw) = snd (findMatch s socket draw)"
    by (cases "waitingPlayers s"; simp add: findMatch_def Let_def)+
  show ?thesis
  proof (intro conjI)
    show "reachable s \<and> socket \<in> set (waitingPlayers s)
      \<longrightarrow> waitingPlayers (fst (findMatch s socket draw)) = []"
    proof (intro impI, elim conjE)
      assume "reachable s" and "socket \<in> set (waitingPlayers s)"
      then show "waitingPlayers (fst (findMatch s socket draw)) = []"
        by (rule a)
    qed
    show "socket \<in> set (waitingPlayers s)
      \<longrightarrow> waitingPlayers (fst (findMatch s socket draw)) = tl (waitingPlayers s)"
      by (intro impI b)
    show "socket_roomId s socket = Some old \<and> waitingPlayers s = opponent # waiting
      \<longrightarrow> socket_roomId (fst (findMatch s socket draw)) socket = Some (makeRoomId socket opponent) \<and>
          rooms (fst (findMatch s socket draw)) (makeRoomId socket opponent) =
            Some (GameRoom_new (makeRoomId socket opponent) socket opponent draw)"
    proof (intro impI, elim conjE)
      assume "waitingPlayers s = opponent # waiting"
      then show "socket_roomId (fst (findMatch s socket draw)) socket =
          Some (makeRoomId socket opponent) \<and>
        rooms (fst (findMatch s socket draw)) (makeRoomId socket opponent) =
          Some (GameRoom_new (makeRoomId socket opponent) socket opponent draw)"
        by (rule c)
    qed
    show "socket_roomId s socket = Some old \<and> waitingPlayers s = []
      \<longrightarrow> waitingPlayers (fst (findMatch s socket draw)) = [socket]"
    proof (intro impI, elim conjE)
      assume "waitingPlayers s = []"
      then show "waitingPlayers (fst (findMatch s socket draw)) = [socket]"
        by (rule d)
    qed
  qed (rule e)+
qed

lemma reachable_carol_waiting: "reachable carol_waiting"
  unfolding carol_waiting_def
  by (rule reachable_run [OF reachable_matched]) (simp add: WORD_LIST_def)

lemma waitingPlayers_matched: "waitingPlayers matched = []"
  by (simp add: matched_def init_def findMatch_def Let_def)

lemma carol_waiting_eq: "carol_waiting = matched\<lparr>waitingPlayers := [carol]\<rparr>"
  by (simp add: carol_waiting_def findMatch_waits [OF waitingPlayers_matched])

theorem findMatch_not_guarded_witness:
  "reachable alice_waiting \<and> alice \<in> set (waitingPlayers alice_waiting) \<and>
   waitingPlayers (fst (findMatch alice_waiting alice 0)) = [] \<and>
   socket_roomId carol_waiting bob = Some room_B_A \<and> waitingPlayers carol_waiting = [carol] \<and>
   socket_roomId (fst (findMatch carol_waiting bob 0)) bob = Some (makeRoomId bob carol) \<and>
   socket_roomId matched bob = Some room_B_A \<and> waitingPlayers matched = [] \<and>
   waitingPlayers (fst (findMatch matched bob 0)) = [bob]"
proof -
  have m: "alice \<in> set (waitingPlayers alice_waiting)"
    by (simp add: waitingPlayers_alice_waiting)
  have sc: "socket_roomId carol_waiting bob = Some room_B_A"
    by (simp add: carol_waiting_eq socket_roomId_matched)
  have wc: "waitingPlayers carol_waiting = [carol]"
    by (simp add: carol_waiting_eq)
  from findMatch_not_guarded [where s = alice_waiting and socket = alice and draw = 0]
    reachable_alice_waiting m
  have a: "waitingPlayers (fst (findMatch alice_waiting alice 0)) = []"
    by simp
  from findMatch_not_guarded [where s = carol_waiting and socket = bob and draw = 0
      and old = room_B_A and opponent = carol and waiting = "[]"] sc wc
  have b: "socket_roomId (fst (findMatch carol_waiting bob 0)) bob = Some (makeRoomId bob carol)"
    by simp
  from findMatch_not_guarded [where s = matched and socket = bob and draw = 0
      and old = room_B_A] socket_roomId_matched(1) waitingPlayers_matched
  have c: "waitingPlayers (fst (findMatch matched bob 0)) = [bob]"
    by simp
  from reachable_alice_waiting m a sc wc b socket_roomId_matched(1) waitingPlayers_matched c
  show ?thesis
    by (intro conjI)
qed

theorem findMatch_self_pairing_counterexample:
  "reachable alice_waiting \<and> waitingPlayers alice_waiting = [alice] \<and>
   findMatch alice_waiting alice 0 \<noteq> (alice_waiting, []) \<and>
   waitingPlayers (fst (findMatch alice_waiting alice 0)) = [] \<and>
   map_option (map fst \<circ> players)
     (rooms (fst (findMatch alice_waiting alice 0)) (makeRoomId alice alice)) = Some [alice] \<and>
   reachable carol_waiting \<and> socket_roomId carol_waiting bob = Some room_B_A \<and>
   rooms carol_waiting room_B_A = Some (GameRoom_new room_B_A bob alice 0) \<and>
   socket_roomId (fst (findMatch carol_waiting bob 0)) bob = Some (makeRoomId bob carol) \<and>
   map_option (map fst \<circ> players)
     (rooms (fst (findMatch carol_waiting bob 0)) (makeRoomId bob carol)) = Some [bob, carol]"
proof -
  note p = findMatch_pairs [OF waitingPlayers_alice_waiting, of alice 0]
  have n: "findMatch alice_waiting alice 0 \<noteq> (alice_waiting, [])"
    by (simp add: p)
  have w: "waitingPlayers (fst (findMatch alice_waiting alice 0)) = []"
    by (simp add: p)
  have k: "map_option (map fst \<circ> players)
     (rooms (fst (findMatch alice_waiting alice 0)) (makeRoomId alice alice)) = Some [alice]"
    by (simp add: p players_GameRoom_new)
  have wc: "waitingPlayers carol_waiting = [carol]"
    by (simp add: carol_waiting_eq)
  note q = findMatch_pairs [OF wc, of bob 0]
  have sc: "socket_roomId carol_waiting bob = Some room_B_A"
    by (simp add: carol_waiting_eq socket_roomId_matched)
  have rc: "rooms carol_waiting room_B_A = Some (GameRoom_new room_B_A bob alice 0)"
    by (simp add: carol_waiting_eq rooms_matched)
  have ne: "bob \<noteq> carol"
    by (simp add: bob_def carol_def)
  have s2: "socket_roomId (fst (findMatch carol_waiting bob 0)) bob = Some (makeRoomId bob carol)"
    by (simp add: q ne)
  have k2: "map_option (map fst \<circ> players)
     (rooms (fst (findMatch carol_waiting bob 0)) (makeRoomId bob carol)) = Some [bob, carol]"
    by (simp add: q players_GameRoom_new ne)
  from reachable_alice_waiting waitingPlayers_alice_waiting n w k reachable_carol_waiting
    sc rc s2 k2
  show ?thesis
    by (intro conjI)
qed

end
